theory Spec2Isabelle
  imports Complex_Main
begin

section \<open>Strings, numbers and dates of the host platform\<close>

text \<open>
  The sync engine is TypeScript. Strings are modelled as \<open>string\<close>, numbers that are
  counters or identifiers as \<open>nat\<close> or \<open>int\<close>, and a \<open>Date\<close> as the number of
  milliseconds since the epoch, \<open>None\<close> standing for JavaScript's Invalid Date.
\<close>

type_synonym Date = "int option"

datatype error =
    AxiosError "nat option"
  | RangeError
  | Error string

text \<open>
  The character class of the regular expression that \<open>processEmail\<close> uses three times:
  slash, backslash, colon, star, question mark, double quote, less, greater, bar.
\<close>

definition reserved :: "char list" where
  "reserved =
     [CHR ''/'', CHR 0x5C, CHR '':'', CHR ''*'', CHR ''?'', CHR 0x22, CHR ''<'', CHR ''>'', CHR ''|'']"

text \<open>\<open>s.replace(/[/\\:*?"<>|]/g, '-')\<close>\<close>

definition replace_reserved :: "string \<Rightarrow> string" where
  "replace_reserved s = map (\<lambda>c. if c \<in> set reserved then CHR ''-'' else c) s"

text \<open>The decimal digits of an integer.\<close>

definition digits :: string where
  "digits = ''0123456789''"

definition digit :: "nat \<Rightarrow> char" where
  "digit n = digits ! (n mod 10)"

fun string_of_nat :: "nat \<Rightarrow> string" where
  "string_of_nat n = (if n < 10 then [digit n] else string_of_nat (n div 10) @ [digit n])"

declare string_of_nat.simps [simp del]

definition decimal :: "int \<Rightarrow> string" where
  "decimal i = (if i < 0 then CHR ''-'' # string_of_nat (nat (- i)) else string_of_nat (nat i))"

text \<open>\<open>s.split(sep)\<close> for a one-character separator.\<close>

fun split :: "char \<Rightarrow> string \<Rightarrow> string list" where
  "split sep [] = [[]]"
| "split sep (c # cs) =
     (if c = sep then [] # split sep cs
      else (case split sep cs of [] \<Rightarrow> [[c]] | p # ps \<Rightarrow> (c # p) # ps))"

text \<open>\<open>xs.slice(start, end)\<close>: negative positions count from the end.\<close>

definition slice :: "'a list \<Rightarrow> int \<Rightarrow> int \<Rightarrow> 'a list" where
  "slice xs start end =
     (let len = int (length xs);
          k = (if start < 0 then max (len + start) 0 else min start len);
          final = (if end < 0 then max (len + end) 0 else min end len)
      in take (nat (final - k)) (drop (nat k) xs))"

text \<open>
  The parts of the platform that are not code of the repository: the \<open>Date\<close> constructor
  on a string, \<open>Date.prototype.toISOString\<close>, \<open>format\<close> and \<open>subDays\<close> of the
  date-fns library, and the exponent notation in which JavaScript prints a number of
  magnitude \<open>10 ^ 21\<close> or more (\<open>1e+21\<close>; its digits are the shortest that identify the
  floating-point number). They are parameters of the model.
\<close>

record platform =
  parseDate :: "string \<Rightarrow> Date"
  isoString :: "int \<Rightarrow> string"
  format :: "int \<Rightarrow> string \<Rightarrow> string"
  subDays :: "int \<Rightarrow> int \<Rightarrow> int"
  exponential :: "int \<Rightarrow> string"

text \<open>
  Number to string conversion in a template literal, for an integer: all its digits
  below \<open>10 ^ 21\<close> in magnitude, exponent notation from there on.
\<close>

definition string_of_int :: "platform \<Rightarrow> int \<Rightarrow> string" where
  "string_of_int P i = (if \<bar>i\<bar> < 10 ^ 21 then decimal i else exponential P i)"

text \<open>\<open>new Date(s)\<close>\<close>

definition new_Date :: "platform \<Rightarrow> string \<Rightarrow> Date" where
  "new_Date P s = parseDate P s"

text \<open>\<open>a >= b\<close> on two dates: a comparison with an Invalid Date is false.\<close>

definition date_ge :: "Date \<Rightarrow> Date \<Rightarrow> bool" where
  "date_ge a b = (case a of None \<Rightarrow> False | Some x \<Rightarrow> (case b of None \<Rightarrow> False | Some y \<Rightarrow> y \<le> x))"

text \<open>\<open>utils/date.ts\<close>: \<open>toISOString\<close> and \<open>toPathFormat\<close> raise on an Invalid Date.\<close>

definition toISOString :: "platform \<Rightarrow> Date \<Rightarrow> error + string" where
  "toISOString P date = (case date of None \<Rightarrow> Inl RangeError | Some t \<Rightarrow> Inr (isoString P t))"

definition toPathFormat :: "platform \<Rightarrow> Date \<Rightarrow> error + (string \<times> string)" where
  "toPathFormat P date =
     (case date of
        None \<Rightarrow> Inl RangeError
      | Some t \<Rightarrow> Inr (format P t ''yyyy'', format P t ''MM''))"


section \<open>Data model\<close>

text \<open>
  \<open>marketo/types.ts\<close> and \<open>alfresco/types.ts\<close>, restricted to the fields the sync engine
  reads. An optional field is an \<open>option\<close>. A \<open>{type, value}\<close> pair such as
  \<open>subject\<close> is kept as its optional \<open>value\<close>. Field names carry a prefix where two
  interfaces share a name.
\<close>

record MarketoFolder =
  folder_type :: string
  folder_value :: int
  folderName :: string

record MarketoEmail =
  email_id :: int
  email_name :: string
  createdAt :: string
  updatedAt :: string
  subject :: "string option"
  fromName :: "string option"
  fromEmail :: "string option"
  folder :: "MarketoFolder option"

record MarketoEmailContent =
  content_id :: int
  htmlContent :: "string option"
  textContent :: "string option"
  content_subject :: "string option"
  content_fromName :: "string option"
  content_fromEmail :: "string option"

record ContentItem =
  item_htmlContent :: "string option"
  item_textContent :: "string option"

record 'a MarketoListResponse =
  success :: bool
  result :: "'a list option"
  moreResult :: "bool option"

type_synonym properties = "(string \<times> string) list"

record AlfrescoNode =
  node_id :: string
  node_name :: string
  isFolder :: bool
  parentId :: "string option"
  node_properties :: "properties option"

text \<open>The document handed to \<open>uploadFile\<close>, before serialisation.\<close>

datatype file_content =
    Html string
  | StateJson string
  | MetadataJson MarketoEmail "string option" "string option" "string option"

text \<open>
  \<open>config.sync\<close> and \<open>config.alfresco.basePath\<close> as \<open>loadConfig\<close> of \<open>config.ts\<close> builds
  them from the environment: the base path is a string and each of the two numbers is
  the default (90 and 50) or whatever integer \<open>parseInt\<close> reads from the variable;
  \<open>getEnvVarNumber\<close> refuses only what is not a number, so zero and negative integers
  pass.
\<close>

record config =
  basePath :: string
  lookbackDays :: int
  batchSize :: int

record SyncState =
  lastSyncTimestamp :: "string option"

record ProcessResult =
  pr_success :: bool
  pr_node :: "AlfrescoNode option"

record BatchResult =
  processed :: nat
  failed :: nat
  skipped :: nat
  failedIds :: "int list"

record SyncResult =
  totalEmails :: nat
  processedEmails :: nat
  failedEmails :: nat
  skippedEmails :: nat
  failedEmailIds :: "int list"
  startTime :: int
  endTime :: int
  duration :: int

section \<open>The world outside the process\<close>

text \<open>
  Everything the engine reaches over the network or reads from the clock. The clock is
  the sequence of values that successive \<open>new Date()\<close> calls return. Every request of a
  client is one step of the transport: the schedule \<open>faults\<close> says whether that step
  raises (retries exhausted, authentication failed, time-out) and with which error;
  otherwise the server answers. The Marketo side is the data it serves. The Alfresco side
  is the repository's list of nodes, in creation order.
\<close>

record world =
  clock :: "nat \<Rightarrow> int"
  ticks :: nat
  faults :: "nat \<Rightarrow> error option"
  calls :: nat
  mkto_emails :: "nat \<Rightarrow> nat \<Rightarrow> MarketoEmail MarketoListResponse"
  mkto_content :: "int \<Rightarrow> ContentItem list option"
  mkto_email :: "int \<Rightarrow> MarketoEmail list option"
  alf_nodes :: "AlfrescoNode list"

text \<open>\<open>now()\<close> of \<open>utils/date.ts\<close>: \<open>new Date()\<close>.\<close>

definition now :: "world \<Rightarrow> int \<times> world" where
  "now w = (clock w (ticks w), w\<lparr>ticks := Suc (ticks w)\<rparr>)"

text \<open>\<open>getDaysAgo(days)\<close> of \<open>utils/date.ts\<close>: \<open>subDays(new Date(), days)\<close>.\<close>

definition getDaysAgo :: "platform \<Rightarrow> int \<Rightarrow> world \<Rightarrow> Date \<times> world" where
  "getDaysAgo P days w = (case now w of (t, w') \<Rightarrow> (Some (subDays P t days), w'))"

definition transport :: "world \<Rightarrow> error option \<times> world" where
  "transport w = (faults w (calls w), w\<lparr>calls := Suc (calls w)\<rparr>)"

subsection \<open>The repository server\<close>

text \<open>
  The reference behaviour of the target repository behind the REST calls of
  \<open>AlfrescoClient\<close>: children are found by parent and name, a relative path is walked
  from the root segment by segment, a child is created unless the parent is unknown
  (404) or the name is taken (409), and a property update merges into the node.
\<close>

definition root_node :: AlfrescoNode where
  "root_node =
     \<lparr>node_id = ''-root-'', node_name = ''Company Home'', isFolder = True,
      parentId = None, node_properties = None\<rparr>"

definition pathParts :: "string \<Rightarrow> string list" where
  "pathParts path = filter (\<lambda>p. p \<noteq> []) (split CHR ''/'' path)"

definition srv_children :: "AlfrescoNode list \<Rightarrow> string \<Rightarrow> string \<Rightarrow> AlfrescoNode list" where
  "srv_children ns pid nm = filter (\<lambda>n. parentId n = Some pid \<and> node_name n = nm) ns"

definition srv_child :: "AlfrescoNode list \<Rightarrow> string \<Rightarrow> string \<Rightarrow> AlfrescoNode option" where
  "srv_child ns pid nm = (case srv_children ns pid nm of [] \<Rightarrow> None | n # _ \<Rightarrow> Some n)"

fun srv_walk :: "AlfrescoNode list \<Rightarrow> AlfrescoNode \<Rightarrow> string list \<Rightarrow> AlfrescoNode option" where
  "srv_walk ns cur [] = Some cur"
| "srv_walk ns cur (seg # segs) =
     (case srv_child ns (node_id cur) seg of
        None \<Rightarrow> None
      | Some n \<Rightarrow> srv_walk ns n segs)"

definition srv_resolve :: "AlfrescoNode list \<Rightarrow> string \<Rightarrow> AlfrescoNode option" where
  "srv_resolve ns path = srv_walk ns root_node (pathParts path)"

definition srv_known :: "AlfrescoNode list \<Rightarrow> string \<Rightarrow> bool" where
  "srv_known ns nid = (nid = node_id root_node \<or> nid \<in> set (map node_id ns))"

definition srv_fresh :: "AlfrescoNode list \<Rightarrow> string" where
  "srv_fresh ns = ''node-'' @ string_of_nat (length ns)"

definition srv_create ::
  "AlfrescoNode list \<Rightarrow> string \<Rightarrow> string \<Rightarrow> bool \<Rightarrow> properties option
     \<Rightarrow> error + (AlfrescoNode \<times> AlfrescoNode list)" where
  "srv_create ns pid nm fld props =
     (if \<not> srv_known ns pid then Inl (AxiosError (Some 404))
      else if srv_child ns pid nm \<noteq> None then Inl (AxiosError (Some 409))
      else (let n = \<lparr>node_id = srv_fresh ns, node_name = nm, isFolder = fld,
                       parentId = Some pid, node_properties = props\<rparr>
            in Inr (n, ns @ [n])))"

definition merge_properties :: "properties \<Rightarrow> AlfrescoNode \<Rightarrow> AlfrescoNode" where
  "merge_properties props n =
     n\<lparr>node_properties :=
         Some (props @ filter (\<lambda>kv. fst kv \<notin> fst ` set props)
                         (case node_properties n of None \<Rightarrow> [] | Some old \<Rightarrow> old))\<rparr>"

definition srv_update ::
  "AlfrescoNode list \<Rightarrow> string \<Rightarrow> properties \<Rightarrow> error + (AlfrescoNode \<times> AlfrescoNode list)" where
  "srv_update ns nid props =
     (case find (\<lambda>n. node_id n = nid) ns of
        None \<Rightarrow> Inl (AxiosError (Some 404))
      | Some n \<Rightarrow>
          Inr (merge_properties props n,
               map (\<lambda>m. if node_id m = nid then merge_properties props m else m) ns))"


section \<open>\<open>marketo/client.ts\<close>\<close>

text \<open>
  \<open>MarketoClient.request\<close> is one transport step followed by the server's answer.
\<close>

definition getEmails ::
  "nat \<Rightarrow> nat \<Rightarrow> world \<Rightarrow> (error + MarketoEmail MarketoListResponse) \<times> world" where
  "getEmails offset maxReturn w =
     (case transport w of
        (Some e, w') \<Rightarrow> (Inl e, w')
      | (None, w') \<Rightarrow> (Inr (mkto_emails w' offset maxReturn), w'))"

text \<open>\<open>response.result?.[0] || null\<close>\<close>

definition first_result :: "'a list option \<Rightarrow> 'a option" where
  "first_result r = (case r of None \<Rightarrow> None | Some [] \<Rightarrow> None | Some (x # _) \<Rightarrow> Some x)"

definition getEmailById :: "int \<Rightarrow> world \<Rightarrow> (error + MarketoEmail option) \<times> world" where
  "getEmailById i w =
     (case transport w of
        (Some e, w') \<Rightarrow> (Inl e, w')
      | (None, w') \<Rightarrow> (Inr (first_result (mkto_email w' i)), w'))"

text \<open>
  \<open>getEmailContent\<close>: the content request, then the metadata request; any error of
  either is caught and answered with \<open>null\<close>.
\<close>

definition getEmailContent :: "int \<Rightarrow> world \<Rightarrow> MarketoEmailContent option \<times> world" where
  "getEmailContent i w =
     (case transport w of
        (Some e, w') \<Rightarrow> (None, w')
      | (None, w') \<Rightarrow>
          (case first_result (mkto_content w' i) of
             None \<Rightarrow> (None, w')
           | Some content \<Rightarrow>
               (case getEmailById i w' of
                  (Inl e, w'') \<Rightarrow> (None, w'')
                | (Inr email, w'') \<Rightarrow>
                    (Some \<lparr>content_id = i,
                           htmlContent = item_htmlContent content,
                           textContent = item_textContent content,
                           content_subject = Option.bind email subject,
                           content_fromName = Option.bind email fromName,
                           content_fromEmail = Option.bind email fromEmail\<rparr>, w''))))"

text \<open>
  The \<open>while (hasMore)\<close> loop of \<open>getEmailsSince\<close>. It may run forever, so it is a
  partial function: \<open>None\<close> is a run that never returns. The page size is the
  constant \<open>maxReturn = 200\<close>.
\<close>

definition recentEmails :: "platform \<Rightarrow> Date \<Rightarrow> MarketoEmail list \<Rightarrow> MarketoEmail list" where
  "recentEmails P since rs = filter (\<lambda>email. date_ge (new_Date P (updatedAt email)) since) rs"

partial_function (option) getEmailsSince_loop ::
  "platform \<Rightarrow> Date \<Rightarrow> nat \<Rightarrow> MarketoEmail list \<Rightarrow> world
     \<Rightarrow> ((error + MarketoEmail list) \<times> world) option" where
  "getEmailsSince_loop P since offset allEmails w =
     (case getEmails offset 200 w of
        (Inl e, w') \<Rightarrow> Some (Inl e, w')
      | (Inr response, w') \<Rightarrow>
          if \<not> success response then Some (Inr allEmails, w')
          else (case result response of
                  None \<Rightarrow> Some (Inr allEmails, w')
                | Some rs \<Rightarrow>
                    if moreResult response = Some True
                    then getEmailsSince_loop P since (offset + 200)
                           (allEmails @ recentEmails P since rs) w'
                    else Some (Inr (allEmails @ recentEmails P since rs), w')))"

declare getEmailsSince_loop.simps [code]

text \<open>
  \<open>getEmailsSince\<close>: the first statement logs \<open>since.toISOString()\<close>, which raises on an
  Invalid Date.
\<close>

definition getEmailsSince ::
  "platform \<Rightarrow> Date \<Rightarrow> world \<Rightarrow> ((error + MarketoEmail list) \<times> world) option" where
  "getEmailsSince P since w =
     (case toISOString P since of
        Inl e \<Rightarrow> Some (Inl e, w)
      | Inr _ \<Rightarrow> getEmailsSince_loop P since 0 [] w)"

section \<open>\<open>alfresco/client.ts\<close>\<close>

definition isNotFoundError :: "error \<Rightarrow> bool" where
  "isNotFoundError e = (case e of AxiosError st \<Rightarrow> st = Some 404 | _ \<Rightarrow> False)"

definition getNodeByPath :: "string \<Rightarrow> world \<Rightarrow> (error + AlfrescoNode option) \<times> world" where
  "getNodeByPath path w =
     (case transport w of
        (Some e, w') \<Rightarrow> (if isNotFoundError e then Inr None else Inl e, w')
      | (None, w') \<Rightarrow> (Inr (srv_resolve (alf_nodes w') path), w'))"

definition createFolder :: "string \<Rightarrow> string \<Rightarrow> world \<Rightarrow> (error + AlfrescoNode) \<times> world" where
  "createFolder parent nm w =
     (case transport w of
        (Some e, w') \<Rightarrow> (Inl e, w')
      | (None, w') \<Rightarrow>
          (case srv_create (alf_nodes w') parent nm True None of
             Inl e \<Rightarrow> (Inl e, w')
           | Inr (n, ns) \<Rightarrow> (Inr n, w'\<lparr>alf_nodes := ns\<rparr>)))"

text \<open>The \<open>for (const part of pathParts)\<close> loop of \<open>ensureFolderPath\<close>.\<close>

fun ensureFolderPath_loop ::
  "string list \<Rightarrow> string \<Rightarrow> AlfrescoNode \<Rightarrow> world \<Rightarrow> (error + AlfrescoNode) \<times> world" where
  "ensureFolderPath_loop [] currentPath currentNode w = (Inr currentNode, w)"
| "ensureFolderPath_loop (part # parts) currentPath currentNode w =
     (case getNodeByPath (currentPath @ ''/'' @ part) w of
        (Inl e, w') \<Rightarrow> (Inl e, w')
      | (Inr (Some n), w') \<Rightarrow> ensureFolderPath_loop parts (currentPath @ ''/'' @ part) n w'
      | (Inr None, w') \<Rightarrow>
          (case createFolder (node_id currentNode) part w' of
             (Inl e, w'') \<Rightarrow> (Inl e, w'')
           | (Inr n, w'') \<Rightarrow> ensureFolderPath_loop parts (currentPath @ ''/'' @ part) n w''))"

definition ensureFolderPath ::
  "string \<Rightarrow> string \<Rightarrow> world \<Rightarrow> (error + AlfrescoNode) \<times> world" where
  "ensureFolderPath base path w =
     (case getNodeByPath base w of
        (Inl e, w') \<Rightarrow> (Inl e, w')
      | (Inr None, w') \<Rightarrow> (Inl (Error (''Base path does not exist: '' @ base)), w')
      | (Inr (Some currentNode), w') \<Rightarrow> ensureFolderPath_loop (pathParts path) base currentNode w')"

text \<open>
  \<open>uploadFile(parentId, fileName, content, {name, properties})\<close>: the node is created
  under \<open>options.name\<close>, which every caller sets to \<open>fileName\<close>.
\<close>

definition uploadFile ::
  "string \<Rightarrow> string \<Rightarrow> file_content \<Rightarrow> properties \<Rightarrow> world \<Rightarrow> (error + AlfrescoNode) \<times> world" where
  "uploadFile parent fileName content props w =
     (case transport w of
        (Some e, w') \<Rightarrow> (Inl e, w')
      | (None, w') \<Rightarrow>
          (case srv_create (alf_nodes w') parent fileName False (Some props) of
             Inl e \<Rightarrow> (Inl e, w')
           | Inr (n, ns) \<Rightarrow> (Inr n, w'\<lparr>alf_nodes := ns\<rparr>)))"

text \<open>\<open>nodeExists\<close>: the first entry of the listing, \<open>null\<close> on an empty listing or any error.\<close>

definition nodeExists :: "string \<Rightarrow> string \<Rightarrow> world \<Rightarrow> AlfrescoNode option \<times> world" where
  "nodeExists parent nm w =
     (case transport w of
        (Some e, w') \<Rightarrow> (None, w')
      | (None, w') \<Rightarrow>
          (case srv_children (alf_nodes w') parent nm of
             [] \<Rightarrow> (None, w')
           | n # _ \<Rightarrow> (Some n, w')))"

definition updateNodeProperties ::
  "string \<Rightarrow> properties \<Rightarrow> world \<Rightarrow> (error + AlfrescoNode) \<times> world" where
  "updateNodeProperties nid props w =
     (case transport w of
        (Some e, w') \<Rightarrow> (Inl e, w')
      | (None, w') \<Rightarrow>
          (case srv_update (alf_nodes w') nid props of
             Inl e \<Rightarrow> (Inl e, w')
           | Inr (n, ns) \<Rightarrow> (Inr n, w'\<lparr>alf_nodes := ns\<rparr>)))"

definition getRootNodeId :: "string \<Rightarrow> world \<Rightarrow> (error + string) \<times> world" where
  "getRootNodeId base w =
     (case getNodeByPath base w of
        (Inl e, w') \<Rightarrow> (Inl e, w')
      | (Inr None, w') \<Rightarrow> (Inl (Error (''Base path not found: '' @ base)), w')
      | (Inr (Some n), w') \<Rightarrow> (Inr (node_id n), w'))"


section \<open>\<open>sync.ts\<close>\<close>

text \<open>A string in a condition: absent and empty are false.\<close>

definition truthy :: "string option \<Rightarrow> bool" where
  "truthy v = (case v of None \<Rightarrow> False | Some s \<Rightarrow> s \<noteq> [])"

text \<open>\<open>a || b\<close> on optional strings.\<close>

definition js_or :: "string option \<Rightarrow> string option \<Rightarrow> string option" where
  "js_or a b = (if truthy a then a else b)"

text \<open>An optional value in an object literal: serialisation drops an undefined value.\<close>

definition opt_prop :: "string \<Rightarrow> string option \<Rightarrow> properties" where
  "opt_prop k v = (case v of None \<Rightarrow> [] | Some s \<Rightarrow> [(k, s)])"

definition loadSyncState_try :: "string \<Rightarrow> world \<Rightarrow> (error + SyncState) \<times> world" where
  "loadSyncState_try base w =
     (case getRootNodeId base w of
        (Inl e, w') \<Rightarrow> (Inl e, w')
      | (Inr rootNode, w') \<Rightarrow>
          (case nodeExists rootNode ''.sync-state.json'' w' of
             (stateNode, w'') \<Rightarrow>
               (case Option.bind stateNode node_properties of
                  None \<Rightarrow> (Inr \<lparr>lastSyncTimestamp = None\<rparr>, w'')
                | Some props \<Rightarrow>
                    if truthy (map_of props ''mkto:lastSyncTimestamp'')
                    then (Inr \<lparr>lastSyncTimestamp = map_of props ''mkto:lastSyncTimestamp''\<rparr>, w'')
                    else (Inr \<lparr>lastSyncTimestamp = None\<rparr>, w''))))"

definition loadSyncState :: "string \<Rightarrow> world \<Rightarrow> SyncState \<times> world" where
  "loadSyncState base w =
     (case loadSyncState_try base w of
        (Inl e, w') \<Rightarrow> (\<lparr>lastSyncTimestamp = None\<rparr>, w')
      | (Inr st, w') \<Rightarrow> (st, w'))"

definition saveSyncState_try :: "string \<Rightarrow> string \<Rightarrow> world \<Rightarrow> (error + unit) \<times> world" where
  "saveSyncState_try base timestamp w =
     (case getRootNodeId base w of
        (Inl e, w') \<Rightarrow> (Inl e, w')
      | (Inr rootNode, w') \<Rightarrow>
          (case nodeExists rootNode ''.sync-state.json'' w' of
             (Some stateNode, w'') \<Rightarrow>
               (case updateNodeProperties (node_id stateNode)
                       [(''mkto:lastSyncTimestamp'', timestamp)] w'' of
                  (Inl e, w3) \<Rightarrow> (Inl e, w3)
                | (Inr _, w3) \<Rightarrow> (Inr (), w3))
           | (None, w'') \<Rightarrow>
               (case uploadFile rootNode ''.sync-state.json'' (StateJson timestamp)
                       [(''mkto:lastSyncTimestamp'', timestamp)] w'' of
                  (Inl e, w3) \<Rightarrow> (Inl e, w3)
                | (Inr _, w3) \<Rightarrow> (Inr (), w3))))"

text \<open>The \<open>catch\<close> block of \<open>saveSyncState\<close> logs the error and returns normally.\<close>

definition saveSyncState :: "string \<Rightarrow> string \<Rightarrow> world \<Rightarrow> (error + unit) \<times> world" where
  "saveSyncState base timestamp w =
     (case saveSyncState_try base timestamp w of
        (Inl e, w') \<Rightarrow> (Inr (), w')
      | (Inr u, w') \<Rightarrow> (Inr u, w'))"

subsection \<open>\<open>processEmail\<close>\<close>

definition campaignName :: "MarketoEmail \<Rightarrow> string" where
  "campaignName email =
     (case folder email of
        None \<Rightarrow> ''Uncategorized''
      | Some f \<Rightarrow> if folderName f \<noteq> [] then folderName f else ''Uncategorized'')"

definition sanitizedCampaignName :: "MarketoEmail \<Rightarrow> string" where
  "sanitizedCampaignName email = replace_reserved (campaignName email)"

definition folderPath :: "string \<Rightarrow> string \<Rightarrow> MarketoEmail \<Rightarrow> string" where
  "folderPath year month email = year @ ''/'' @ month @ ''/'' @ sanitizedCampaignName email"

definition emailFileName :: "platform \<Rightarrow> MarketoEmail \<Rightarrow> string" where
  "emailFileName P email =
     string_of_int P (email_id email) @ ''-'' @ replace_reserved (email_name email) @ ''.html''"

definition metadataFileName :: "platform \<Rightarrow> MarketoEmail \<Rightarrow> string" where
  "metadataFileName P email =
     string_of_int P (email_id email) @ ''-'' @ replace_reserved (email_name email)
       @ ''-metadata.json''"

definition metadata ::
  "platform \<Rightarrow> MarketoEmail \<Rightarrow> MarketoEmailContent \<Rightarrow> string \<Rightarrow> properties" where
  "metadata P email content syncedAt =
     [(''mkto:emailId'', string_of_int P (email_id email)),
      (''mkto:emailName'', email_name email),
      (''mkto:campaignName'', sanitizedCampaignName email)]
     @ opt_prop ''mkto:subject'' (js_or (content_subject content) (subject email))
     @ opt_prop ''mkto:fromName'' (js_or (content_fromName content) (fromName email))
     @ opt_prop ''mkto:fromEmail'' (js_or (content_fromEmail content) (fromEmail email))
     @ [(''mkto:createdAt'', createdAt email),
        (''mkto:updatedAt'', updatedAt email),
        (''mkto:lastSyncedAt'', syncedAt)]"

text \<open>The statements of \<open>processEmail\<close> after the existence check found nothing.\<close>

definition uploadEmail ::
  "platform \<Rightarrow> MarketoEmail \<Rightarrow> MarketoEmailContent \<Rightarrow> string \<Rightarrow> AlfrescoNode \<Rightarrow> world
     \<Rightarrow> (error + ProcessResult) \<times> world" where
  "uploadEmail P email content html folderNode w =
     (case now w of
        (t, w1) \<Rightarrow>
          (case toISOString P (Some t) of
             Inl e \<Rightarrow> (Inl e, w1)
           | Inr syncedAt \<Rightarrow>
               (case uploadFile (node_id folderNode) (emailFileName P email) (Html html)
                       (metadata P email content syncedAt) w1 of
                  (Inl e, w2) \<Rightarrow> (Inl e, w2)
                | (Inr htmlNode, w2) \<Rightarrow>
                    (case uploadFile (node_id folderNode) (metadataFileName P email)
                            (MetadataJson email (content_subject content)
                               (content_fromName content) (content_fromEmail content))
                            [(''mkto:emailId'', string_of_int P (email_id email)),
                             (''mkto:emailName'', email_name email)] w2 of
                       (Inl e, w3) \<Rightarrow> (Inl e, w3)
                     | (Inr _, w3) \<Rightarrow> (Inr \<lparr>pr_success = True, pr_node = Some htmlNode\<rparr>, w3)))))"

definition processEmail_try ::
  "platform \<Rightarrow> string \<Rightarrow> MarketoEmail \<Rightarrow> world \<Rightarrow> (error + ProcessResult) \<times> world" where
  "processEmail_try P base email w =
     (case getEmailContent (email_id email) w of
        (None, w1) \<Rightarrow> (Inr \<lparr>pr_success = False, pr_node = None\<rparr>, w1)
      | (Some content, w1) \<Rightarrow>
          if \<not> truthy (htmlContent content)
          then (Inr \<lparr>pr_success = False, pr_node = None\<rparr>, w1)
          else
            (case toPathFormat P (new_Date P (createdAt email)) of
               Inl e \<Rightarrow> (Inl e, w1)
             | Inr (year, month) \<Rightarrow>
                 (case ensureFolderPath base (folderPath year month email) w1 of
                    (Inl e, w2) \<Rightarrow> (Inl e, w2)
                  | (Inr folderNode, w2) \<Rightarrow>
                      (case nodeExists (node_id folderNode) (emailFileName P email) w2 of
                         (Some existingNode, w3) \<Rightarrow>
                           (Inr \<lparr>pr_success = True, pr_node = Some existingNode\<rparr>, w3)
                       | (None, w3) \<Rightarrow>
                           uploadEmail P email content
                             (case htmlContent content of None \<Rightarrow> [] | Some h \<Rightarrow> h)
                             folderNode w3))))"

text \<open>The \<open>catch\<close> block of \<open>processEmail\<close> turns every error into a failed item.\<close>

definition processEmail ::
  "platform \<Rightarrow> string \<Rightarrow> MarketoEmail \<Rightarrow> world \<Rightarrow> ProcessResult \<times> world" where
  "processEmail P base email w =
     (case processEmail_try P base email w of
        (Inl e, w') \<Rightarrow> (\<lparr>pr_success = False, pr_node = None\<rparr>, w')
      | (Inr r, w') \<Rightarrow> (r, w'))"

subsection \<open>\<open>processBatch\<close>\<close>

text \<open>The classification in the body of the inner loop.\<close>

definition tally :: "ProcessResult \<Rightarrow> MarketoEmail \<Rightarrow> BatchResult \<Rightarrow> BatchResult" where
  "tally r email acc =
     (if pr_success r then
        (if pr_node r \<noteq> None then acc\<lparr>processed := processed acc + 1\<rparr>
         else acc\<lparr>skipped := skipped acc + 1\<rparr>)
      else acc\<lparr>failed := failed acc + 1, failedIds := failedIds acc @ [email_id email]\<rparr>)"

text \<open>
  The inner loop \<open>for (const email of batch)\<close>. The pause of 100 ms after each item has
  no effect on any value and is left out.
\<close>

fun processItems ::
  "platform \<Rightarrow> string \<Rightarrow> MarketoEmail list \<Rightarrow> BatchResult \<Rightarrow> world \<Rightarrow> BatchResult \<times> world" where
  "processItems P base [] acc w = (acc, w)"
| "processItems P base (email # batch) acc w =
     (case processEmail P base email w of
        (r, w') \<Rightarrow> processItems P base batch (tally r email acc) w')"

text \<open>
  The outer loop \<open>for (let i = 0; i < emails.length; i += batchSize)\<close>. With a batch
  size that is not positive the index never reaches the length, so the loop is a
  partial function.
\<close>

partial_function (option) processBatch_loop ::
  "platform \<Rightarrow> string \<Rightarrow> MarketoEmail list \<Rightarrow> int \<Rightarrow> int \<Rightarrow> BatchResult \<Rightarrow> world
     \<Rightarrow> (BatchResult \<times> world) option" where
  "processBatch_loop P base emails bsize i acc w =
     (if i < int (length emails) then
        (case processItems P base (slice emails i (i + bsize)) acc w of
           (acc', w') \<Rightarrow> processBatch_loop P base emails bsize (i + bsize) acc' w')
      else Some (acc, w))"

declare processBatch_loop.simps [code]

definition processBatch ::
  "platform \<Rightarrow> string \<Rightarrow> MarketoEmail list \<Rightarrow> int \<Rightarrow> world \<Rightarrow> (BatchResult \<times> world) option" where
  "processBatch P base emails bsize w =
     processBatch_loop P base emails bsize 0
       \<lparr>processed = 0, failed = 0, skipped = 0, failedIds = []\<rparr> w"

subsection \<open>\<open>sync\<close>\<close>

text \<open>
  The lookback decision. Both branches log \<open>sinceDate.toISOString()\<close>, which raises on
  an Invalid Date.
\<close>

definition sinceDate :: "platform \<Rightarrow> config \<Rightarrow> SyncState \<Rightarrow> world \<Rightarrow> (error + Date) \<times> world" where
  "sinceDate P cfg syncState w =
     (if truthy (lastSyncTimestamp syncState) then
        (case lastSyncTimestamp syncState of
           None \<Rightarrow> (Inl RangeError, w)
         | Some ts \<Rightarrow>
             (case toISOString P (new_Date P ts) of
                Inl e \<Rightarrow> (Inl e, w)
              | Inr _ \<Rightarrow> (Inr (new_Date P ts), w)))
      else
        (case getDaysAgo P (lookbackDays cfg) w of
           (d, w') \<Rightarrow>
             (case toISOString P d of
                Inl e \<Rightarrow> (Inl e, w')
              | Inr _ \<Rightarrow> (Inr d, w'))))"

definition sync_try ::
  "platform \<Rightarrow> config \<Rightarrow> int \<Rightarrow> world \<Rightarrow> ((error + SyncResult) \<times> world) option" where
  "sync_try P cfg start w =
     (case loadSyncState (basePath cfg) w of
        (syncState, w1) \<Rightarrow>
          (case sinceDate P cfg syncState w1 of
             (Inl e, w2) \<Rightarrow> Some (Inl e, w2)
           | (Inr since, w2) \<Rightarrow>
               (case getEmailsSince P since w2 of
                  None \<Rightarrow> None
                | Some (Inl e, w3) \<Rightarrow> Some (Inl e, w3)
                | Some (Inr emails, w3) \<Rightarrow>
                    if length emails = 0 then
                      (case now w3 of
                         (finish, w4) \<Rightarrow>
                           Some (Inr \<lparr>totalEmails = length emails, processedEmails = 0,
                                       failedEmails = 0, skippedEmails = 0, failedEmailIds = [],
                                       startTime = start, endTime = finish,
                                       duration = finish - start\<rparr>, w4))
                    else
                      (case processBatch P (basePath cfg) emails (batchSize cfg) w3 of
                         None \<Rightarrow> None
                       | Some (batchResult, w4) \<Rightarrow>
                           (case toISOString P (Some start) of
                              Inl e \<Rightarrow> Some (Inl e, w4)
                            | Inr syncTimestamp \<Rightarrow>
                                (case saveSyncState (basePath cfg) syncTimestamp w4 of
                                   (Inl e, w5) \<Rightarrow> Some (Inl e, w5)
                                 | (Inr _, w5) \<Rightarrow>
                                     (case now w5 of
                                        (finish, w6) \<Rightarrow>
                                          Some (Inr \<lparr>totalEmails = length emails,
                                                      processedEmails = processed batchResult,
                                                      failedEmails = failed batchResult,
                                                      skippedEmails = skipped batchResult,
                                                      failedEmailIds = failedIds batchResult,
                                                      startTime = start, endTime = finish,
                                                      duration = finish - start\<rparr>, w6))))))))"

text \<open>
  \<open>sync\<close>: the start instant is read first; the \<open>catch\<close> block reads the clock once
  more and raises the error again.
\<close>

definition sync :: "platform \<Rightarrow> config \<Rightarrow> world \<Rightarrow> ((error + SyncResult) \<times> world) option" where
  "sync P cfg w =
     (case now w of
        (start, w0) \<Rightarrow>
          (case sync_try P cfg start w0 of
             None \<Rightarrow> None
           | Some (Inl e, w') \<Rightarrow> (case now w' of (finish, w'') \<Rightarrow> Some (Inl e, w''))
           | Some (Inr r, w') \<Rightarrow> Some (Inr r, w')))"


section \<open>\<open>utils/retry.ts\<close>\<close>

text \<open>
  The options are JavaScript numbers. They are modelled as reals: the rounding of
  floating-point arithmetic is not represented, and the two agree on the integers that
  the defaults and the callers of the repository use. \<open>Partial<RetryOptions>\<close> is a
  record of optional numbers, \<open>None\<close> for a key that the caller leaves out.
\<close>

record RetryOptions =
  maxRetries :: real
  initialDelayMs :: real
  maxDelayMs :: real
  backoffMultiplier :: real




text \<open>
  \<open>calculateDelay(attempt, options)\<close>. The attempt is the loop counter of \<open>retry\<close>,
  an integer that is at least 1, so the exponent of \<open>Math.pow\<close> is a natural number.
\<close>

definition calculateDelay :: "nat \<Rightarrow> RetryOptions \<Rightarrow> real" where
  "calculateDelay attempt options =
     min (initialDelayMs options * backoffMultiplier options ^ (attempt - 1)) (maxDelayMs options)"

text \<open>
  The \<open>for (let attempt = 1; attempt <= opts.maxRetries; attempt++)\<close> loop of \<open>retry\<close>.
  The operation \<open>fn\<close> is a transformer of the state it acts on and raises with \<open>Inl\<close>. A
  thrown value is an optional error, \<open>None\<close> being \<open>undefined\<close>, the value of \<open>lastError\<close>
  before the first failure. The loop carries the delays that \<open>sleep\<close> has waited so far,
  in order. When the counter passes \<open>maxRetries\<close> the statement after the loop throws
  \<open>lastError\<close>.
\<close>

function retry_loop ::
  "('s \<Rightarrow> ('e option + 'a) \<times> 's) \<Rightarrow> RetryOptions \<Rightarrow> nat \<Rightarrow> 'e option \<Rightarrow> real list \<Rightarrow> 's
     \<Rightarrow> ('e option + 'a) \<times> real list \<times> 's" where
  "retry_loop fn opts attempt lastError slept s =
     (if real attempt \<le> maxRetries opts then
        (case fn s of
           (Inr v, s') \<Rightarrow> (Inr v, slept, s')
         | (Inl error, s') \<Rightarrow>
             if real attempt = maxRetries opts then (Inl error, slept, s')
             else retry_loop fn opts (attempt + 1) error
                    (slept @ [calculateDelay attempt opts]) s')
      else (Inl lastError, slept, s))"
  by pat_completeness auto

termination retry_loop
proof (relation "measure (\<lambda>(fn, opts, attempt, lastError, slept, s).
    nat \<lceil>maxRetries opts\<rceil> + 1 - attempt)", goal_cases)
  case 1
  show ?case by simp
next
  case (2 fn opts attempt lastError slept s x y a)
  have "int attempt \<le> \<lceil>maxRetries opts\<rceil>" using 2(1) by linarith
  then have "attempt \<le> nat \<lceil>maxRetries opts\<rceil>" by linarith
  then show ?case by simp
qed

declare retry_loop.simps [simp del]


section \<open>A test double of the platform and a small world\<close>

text \<open>
  Dates are written as decimal milliseconds; \<open>format\<close> answers as the mock of
  \<open>sync.test.ts\<close> does.
\<close>

definition digit_value :: "char \<Rightarrow> nat option" where
  "digit_value c =
     (if c \<in> set ''0123456789'' then Some (length (takeWhile (\<lambda>d. d \<noteq> c) ''0123456789''))
      else None)"

fun parse_nat :: "nat \<Rightarrow> string \<Rightarrow> nat option" where
  "parse_nat acc [] = Some acc"
| "parse_nat acc (c # cs) =
     (case digit_value c of None \<Rightarrow> None | Some d \<Rightarrow> parse_nat (10 * acc + d) cs)"

definition test_platform :: platform where
  "test_platform =
     \<lparr>parseDate = (\<lambda>s. if s = [] then None else map_option int (parse_nat 0 s)),
      isoString = (\<lambda>t. decimal t),
      format = (\<lambda>t p. if p = ''yyyy'' then ''2024'' else ''01''),
      subDays = (\<lambda>t d. t - d * 10),
      exponential = (\<lambda>i. ''1e+21'')\<rparr>"


definition test_config :: config where
  "test_config = \<lparr>basePath = ''/Test'', lookbackDays = 90, batchSize = 50\<rparr>"

definition test_base :: AlfrescoNode where
  "test_base =
     \<lparr>node_id = ''base'', node_name = ''Test'', isFolder = True,
      parentId = Some ''-root-'', node_properties = None\<rparr>"

definition mockEmail :: "int \<Rightarrow> string \<Rightarrow> MarketoEmail" where
  "mockEmail i upd =
     \<lparr>email_id = i, email_name = ''Test Email'', createdAt = ''1000'', updatedAt = upd,
      subject = Some ''Test Subject'', fromName = Some ''John Doe'',
      fromEmail = Some ''john@example.com'',
      folder = Some \<lparr>folder_type = ''Folder'', folder_value = 1,
                      folderName = ''Test/Campaign:2024''\<rparr>\<rparr>"

text \<open>
  A source that lists the given emails on one page; the emails whose identifier is odd
  have a body, the others have none.
\<close>

definition test_world :: "MarketoEmail list \<Rightarrow> (nat \<Rightarrow> error option) \<Rightarrow> world" where
  "test_world emails fs =
     \<lparr>clock = (\<lambda>n. 5000 + 10 * int n), ticks = 0, faults = fs, calls = 0,
      mkto_emails = (\<lambda>offset maxReturn.
         \<lparr>success = True, result = Some emails, moreResult = Some False\<rparr>),
      mkto_content = (\<lambda>i. if odd i
         then Some [\<lparr>item_htmlContent = Some ''<html>Test</html>'', item_textContent = None\<rparr>]
         else Some []),
      mkto_email = (\<lambda>i. Some [mockEmail i ''6000'']),
      alf_nodes = [test_base]\<rparr>"

section \<open>Notions used to state the properties\<close>

text \<open>The outcome of each item of a list, processed one after the other.\<close>

fun outcomes :: "platform \<Rightarrow> string \<Rightarrow> MarketoEmail list \<Rightarrow> world \<Rightarrow> ProcessResult list" where
  "outcomes P base [] w = []"
| "outcomes P base (email # rest) w =
     (case processEmail P base email w of (r, w') \<Rightarrow> r # outcomes P base rest w')"

text \<open>The items of a list whose outcome, at the same position, is a failure.\<close>

definition failedItems :: "MarketoEmail list \<Rightarrow> ProcessResult list \<Rightarrow> MarketoEmail list" where
  "failedItems emails rs =
     map fst (filter (\<lambda>(email, ok). \<not> ok) (zip emails (map pr_success rs)))"

text \<open>
  The items of a list, each with the world in which the inner loop reaches it.
\<close>

fun visits :: "platform \<Rightarrow> string \<Rightarrow> MarketoEmail list \<Rightarrow> world \<Rightarrow> (MarketoEmail \<times> world) list" where
  "visits P base [] w = []"
| "visits P base (email # rest) w =
     (email, w) # visits P base rest (snd (processEmail P base email w))"

text \<open>
  Materialization of an item fails in a world in one of two ways. The payload is
  missing: the content request answers nothing, or a content without HTML. Or a
  statement of \<open>processEmail\<close> raises: the creation date, the folder path, an upload.
\<close>

definition missingPayload :: "MarketoEmail \<Rightarrow> world \<Rightarrow> bool" where
  "missingPayload email w =
     (case getEmailContent (email_id email) w of
        (None, w') \<Rightarrow> True
      | (Some content, w') \<Rightarrow> \<not> truthy (htmlContent content))"

definition raises :: "platform \<Rightarrow> string \<Rightarrow> MarketoEmail \<Rightarrow> world \<Rightarrow> bool" where
  "raises P base email w = isl (fst (processEmail_try P base email w))"

definition failsMaterialization :: "platform \<Rightarrow> string \<Rightarrow> MarketoEmail \<times> world \<Rightarrow> bool" where
  "failsMaterialization P base v = (missingPayload (fst v) (snd v) \<or> raises P base (fst v) (snd v))"

text \<open>
  A fault schedule in which the request with the given number fails with status 500.
\<close>

definition fault_at :: "nat \<Rightarrow> nat \<Rightarrow> error option" where
  "fault_at k n = (if n = k then Some (AxiosError (Some 500)) else None)"

definition emptyBatch :: BatchResult where
  "emptyBatch = \<lparr>processed = 0, failed = 0, skipped = 0, failedIds = []\<rparr>"

text \<open>
  The timestamps held under the marker property by the nodes of the repository, and
  the timestamp that a reader of the marker finds.
\<close>

definition marker_values :: "AlfrescoNode list \<Rightarrow> string list" where
  "marker_values ns =
     concat (map (\<lambda>n. case node_properties n of
                          None \<Rightarrow> []
                        | Some ps \<Rightarrow> map snd (filter (\<lambda>kv. fst kv = ''mkto:lastSyncTimestamp'') ps)) ns)"

definition stored_marker :: "string \<Rightarrow> AlfrescoNode list \<Rightarrow> string option" where
  "stored_marker base ns =
     (case srv_resolve ns base of
        None \<Rightarrow> None
      | Some rootNode \<Rightarrow>
          (case srv_child ns (node_id rootNode) ''.sync-state.json'' of
             None \<Rightarrow> None
           | Some n \<Rightarrow>
               (case node_properties n of
                  None \<Rightarrow> None
                | Some ps \<Rightarrow> map_of ps ''mkto:lastSyncTimestamp'')))"

text \<open>
  How a world may change while the engine runs: the clock, the fault schedule and the
  source data stay, the counters advance, and the repository keeps the identity, name
  and parent of every node it has (new nodes are appended, properties may change).
\<close>

definition ident :: "AlfrescoNode \<Rightarrow> string \<times> string \<times> string option" where
  "ident n = (node_id n, node_name n, parentId n)"

definition grows :: "AlfrescoNode list \<Rightarrow> AlfrescoNode list \<Rightarrow> bool" where
  "grows ns ns' = (\<exists>zs. map ident ns' = map ident ns @ zs)"

definition frame :: "world \<Rightarrow> world \<Rightarrow> bool" where
  "frame w w' =
     (clock w' = clock w \<and> faults w' = faults w \<and> mkto_emails w' = mkto_emails w
      \<and> mkto_content w' = mkto_content w \<and> mkto_email w' = mkto_email w
      \<and> ticks w \<le> ticks w' \<and> calls w \<le> calls w'
      \<and> grows (alf_nodes w) (alf_nodes w'))"

definition writes :: "string set \<Rightarrow> world \<Rightarrow> world \<Rightarrow> bool" where
  "writes V w w' =
     (frame w w' \<and> set (marker_values (alf_nodes w')) \<subseteq> set (marker_values (alf_nodes w)) \<union> V)"

text \<open>
  Pagination: the page served at the j-th offset, the items a page contributes (none
  when it is unsuccessful or has no result list), whether a page lets the loop go on,
  and the items of the first n pages.
\<close>

definition page :: "world \<Rightarrow> nat \<Rightarrow> MarketoEmail MarketoListResponse" where
  "page w j = mkto_emails w (200 * j) 200"

definition page_items :: "'a MarketoListResponse \<Rightarrow> 'a list" where
  "page_items r = (if success r then (case result r of None \<Rightarrow> [] | Some rs \<Rightarrow> rs) else [])"

definition continues :: "'a MarketoListResponse \<Rightarrow> bool" where
  "continues r = (success r \<and> result r \<noteq> None \<and> moreResult r = Some True)"

definition fetched :: "world \<Rightarrow> nat \<Rightarrow> MarketoEmail list" where
  "fetched w n = concat (map (\<lambda>j. page_items (page w j)) [0..<n])"

text \<open>
  A source whose first page is unsuccessful although it announces more results, and
  whose second page holds an item.
\<close>

definition stalled_world :: world where
  "stalled_world =
     (test_world [] (\<lambda>_. None))
       \<lparr>mkto_emails := (\<lambda>offset maxReturn.
          if offset = 0 then \<lparr>success = False, result = None, moreResult = Some True\<rparr>
          else \<lparr>success = True, result = Some [mockEmail 1 ''6000''], moreResult = Some False\<rparr>)\<rparr>"

text \<open>What the fetch loop has done when it returns a list, started at an offset.\<close>

definition fetch_post ::
  "platform \<Rightarrow> Date \<Rightarrow> nat \<Rightarrow> MarketoEmail list \<Rightarrow> world
     \<Rightarrow> (error + MarketoEmail list) \<times> world \<Rightarrow> bool" where
  "fetch_post P since off acc w y =
     (\<forall>es w'. y = (Inr es, w') \<longrightarrow>
        (\<exists>n>0. w' = w\<lparr>calls := calls w + n\<rparr>
           \<and> (\<forall>j<n - 1. continues (mkto_emails w (off + 200 * j) 200))
           \<and> \<not> continues (mkto_emails w (off + 200 * (n - 1)) 200)
           \<and> es = acc @ recentEmails P since
                (concat (map (\<lambda>j. page_items (mkto_emails w (off + 200 * j) 200)) [0..<n]))))"

text \<open>
  The candidate list that a run started in a world fetches, when it gets that far.
\<close>

definition candidates :: "platform \<Rightarrow> config \<Rightarrow> world \<Rightarrow> MarketoEmail list option" where
  "candidates P cfg w =
     (case now w of
        (start, w0) \<Rightarrow>
          (case loadSyncState (basePath cfg) w0 of
             (st, w1) \<Rightarrow>
               (case sinceDate P cfg st w1 of
                  (Inl e, w2) \<Rightarrow> None
                | (Inr since, w2) \<Rightarrow>
                    (case getEmailsSince P since w2 of
                       Some (Inr emails, w3) \<Rightarrow> Some emails
                     | _ \<Rightarrow> None))))"

text \<open>
  The identity, name and parent of every node of the repository other than the sync
  marker, in creation order.
\<close>

definition archive_idents :: "AlfrescoNode list \<Rightarrow> (string \<times> string \<times> string option) list" where
  "archive_idents ns = filter (\<lambda>i. fst (snd i) \<noteq> ''.sync-state.json'') (map ident ns)"

text \<open>The node that the server finds under the base path for a folder path.\<close>

definition folder_of :: "AlfrescoNode list \<Rightarrow> string \<Rightarrow> string \<Rightarrow> AlfrescoNode option" where
  "folder_of ns base path = srv_walk ns root_node (pathParts base @ pathParts path)"

text \<open>
  A candidate is archived in a world when the source serves a body for it and the
  repository holds its HTML file in its folder.
\<close>

definition archived :: "platform \<Rightarrow> string \<Rightarrow> world \<Rightarrow> MarketoEmail \<Rightarrow> bool" where
  "archived P base w email =
     ((\<exists>item. first_result (mkto_content w (email_id email)) = Some item
          \<and> truthy (item_htmlContent item))
      \<and> (\<exists>year month folderNode.
            toPathFormat P (new_Date P (createdAt email)) = Inr (year, month)
          \<and> folder_of (alf_nodes w) base (folderPath year month email) = Some folderNode
          \<and> srv_child (alf_nodes w) (node_id folderNode) (emailFileName P email) \<noteq> None))"

text \<open>A candidate has no body when the source serves no content, or no HTML, for it.\<close>

definition noBody :: "world \<Rightarrow> MarketoEmail \<Rightarrow> bool" where
  "noBody w email =
     (case first_result (mkto_content w (email_id email)) of
        None \<Rightarrow> True
      | Some item \<Rightarrow> \<not> truthy (item_htmlContent item))"

text \<open>A source with one candidate that has no body, updated after the first run starts.\<close>

definition bodyless_world :: world where
  "bodyless_world = test_world [mockEmail 2 ''6000''] (\<lambda>_. None)"

text \<open>The world that the first run leaves when it starts in \<open>bodyless_world\<close>.\<close>

definition bodyless_after_first :: world where
  "bodyless_after_first =
     bodyless_world
       \<lparr>ticks := 3, calls := 7,
        alf_nodes :=
          [test_base,
           \<lparr>node_id = ''node-1'', node_name = ''.sync-state.json'', isFolder = False,
            parentId = Some ''base'',
            node_properties = Some [(''mkto:lastSyncTimestamp'', ''5000'')]\<rparr>]\<rparr>"

lemmas eval_defs = Let_def digits_def string_of_nat.simps reserved_def replace_reserved_def digit_def decimal_def string_of_int_def slice_def new_Date_def date_ge_def
  toISOString_def toPathFormat_def now_def getDaysAgo_def transport_def root_node_def pathParts_def
  srv_children_def srv_child_def srv_resolve_def srv_known_def srv_fresh_def srv_create_def merge_properties_def
  srv_update_def getEmails_def first_result_def getEmailById_def getEmailContent_def recentEmails_def
  getEmailsSince_loop.simps getEmailsSince_def isNotFoundError_def getNodeByPath_def createFolder_def
  ensureFolderPath_def uploadFile_def nodeExists_def updateNodeProperties_def getRootNodeId_def
  truthy_def js_or_def opt_prop_def loadSyncState_try_def loadSyncState_def saveSyncState_try_def saveSyncState_def
  campaignName_def sanitizedCampaignName_def folderPath_def emailFileName_def metadataFileName_def metadata_def
  uploadEmail_def processEmail_try_def processEmail_def tally_def processBatch_loop.simps processBatch_def
  sinceDate_def sync_try_def sync_def digit_value_def test_platform_def test_config_def test_base_def mockEmail_def
  test_world_def

section \<open>Facts about strings and paths\<close>

lemma split_nonempty: "split sep s \<noteq> []"
  by (induction s) (auto split: list.splits)

lemma split_append: "split sep (a @ sep # b) = split sep a @ split sep b"
proof (induction a)
  case Nil
  show ?case by simp
next
  case (Cons c a)
  obtain p ps where ps: "split sep a = p # ps"
    using split_nonempty [of sep a] by (cases "split sep a") auto
  show ?case using Cons ps by simp
qed

lemma split_no_sep: "sep \<notin> set s \<Longrightarrow> split sep s = [s]"
  by (induction s) auto

lemma pathParts_append: "pathParts (a @ ''/'' @ b) = pathParts a @ pathParts b"
  by (simp add: pathParts_def split_append)

lemma pathParts_segment: "s \<noteq> [] \<Longrightarrow> CHR ''/'' \<notin> set s \<Longrightarrow> pathParts s = [s]"
  by (simp add: pathParts_def split_no_sep)















section \<open>The retry executor\<close>


lemma retry_no_attempt:
  "maxRetries opts < 1 \<Longrightarrow> retry_loop fn opts 1 lastError slept s = (Inl lastError, slept, s)"
  by (subst retry_loop.simps) simp



section \<open>The batch runner\<close>

lemma processEmail_try_node:
  "processEmail_try P base email w = (Inr r, w') \<Longrightarrow> pr_success r \<Longrightarrow> pr_node r \<noteq> None"
  by (auto simp: processEmail_try_def uploadEmail_def
      split: prod.splits sum.splits option.splits if_splits)

lemma processEmail_node:
  "processEmail P base email w = (r, w') \<Longrightarrow> pr_success r \<Longrightarrow> pr_node r \<noteq> None"
  by (auto simp: processEmail_def dest: processEmail_try_node split: prod.splits sum.splits)

lemma tally_cases:
  "tally r email acc =
     (if pr_success r then
        (if pr_node r \<noteq> None then acc\<lparr>processed := Suc (processed acc)\<rparr>
         else acc\<lparr>skipped := Suc (skipped acc)\<rparr>)
      else acc\<lparr>failed := Suc (failed acc), failedIds := failedIds acc @ [email_id email]\<rparr>)"
  by (simp add: tally_def)

lemma outcomes_length: "length (outcomes P base emails w) = length emails"
  by (induction emails arbitrary: w) (auto split: prod.splits)

lemma processItems_tally:
  "processItems P base emails acc w = (acc', w') \<Longrightarrow>
     processed acc' = processed acc + length (filter pr_success (outcomes P base emails w))
   \<and> failed acc' = failed acc + length (filter (\<lambda>r. \<not> pr_success r) (outcomes P base emails w))
   \<and> skipped acc' = skipped acc
   \<and> failedIds acc' = failedIds acc @ map email_id (failedItems emails (outcomes P base emails w))"
proof (induction emails arbitrary: acc w)
  case Nil
  then show ?case by (simp add: failedItems_def)
next
  case (Cons email rest)
  obtain r w1 where r: "processEmail P base email w = (r, w1)" by (cases "processEmail P base email w")
  have step: "processItems P base rest (tally r email acc) w1 = (acc', w')"
    using Cons.prems r by simp
  note ih = Cons.IH [OF step]
  show ?case
  proof (cases "pr_success r")
    case True
    then have "pr_node r \<noteq> None" using processEmail_node [OF r] by simp
    then show ?thesis using ih r True by (simp add: tally_cases failedItems_def)
  next
    case False
    then show ?thesis using ih r by (simp add: tally_cases failedItems_def)
  qed
qed

lemma processItems_append:
  "processItems P base (xs @ ys) acc w =
     (case processItems P base xs acc w of (a, w1) \<Rightarrow> processItems P base ys a w1)"
  by (induction xs arbitrary: acc w) (auto split: prod.splits)

lemma slice_take_drop:
  "0 \<le> i \<Longrightarrow> i < int (length xs) \<Longrightarrow> 0 < b \<Longrightarrow> slice xs i (i + b) = take (nat b) (drop (nat i) xs)"
  by (auto simp: slice_def Let_def min_def)

lemma processBatch_loop_eq:
  "0 < bsize \<Longrightarrow> 0 \<le> i \<Longrightarrow>
     processBatch_loop P base emails bsize i acc w = Some (processItems P base (drop (nat i) emails) acc w)"
proof (induction "length emails - nat i" arbitrary: i acc w rule: less_induct)
  case less
  show ?case
  proof (cases "i < int (length emails)")
    case False
    then show ?thesis using less.prems by (subst processBatch_loop.simps) simp
  next
    case True
    define batch where "batch = take (nat bsize) (drop (nat i) emails)"
    define rest where "rest = drop (nat (i + bsize)) emails"
    obtain a w1 where b: "processItems P base batch acc w = (a, w1)"
      by (cases "processItems P base batch acc w")
    have m: "length emails - nat (i + bsize) < length emails - nat i"
      using True less.prems by linarith
    have next_i: "processBatch_loop P base emails bsize (i + bsize) a w1 =
        Some (processItems P base rest a w1)"
      unfolding rest_def using less.hyps [OF m] less.prems by simp
    have "nat (i + bsize) = nat bsize + nat i" using less.prems by linarith
    then have r: "rest = drop (nat bsize) (drop (nat i) emails)"
      unfolding rest_def by simp
    have d: "drop (nat i) emails = batch @ rest"
      unfolding batch_def r by (simp only: append_take_drop_id)
    have all: "processItems P base (drop (nat i) emails) acc w = processItems P base rest a w1"
      unfolding d using b by (simp add: processItems_append)
    have sl: "slice emails i (i + bsize) = batch"
      unfolding batch_def using True less.prems by (simp add: slice_take_drop)
    have "processBatch_loop P base emails bsize i acc w =
        processBatch_loop P base emails bsize (i + bsize) a w1"
      using True b sl by (subst processBatch_loop.simps) simp
    then show ?thesis using next_i all by simp
  qed
qed

lemma processBatch_loop_returns:
  assumes "processBatch_loop P base emails bsize i acc w = Some y"
  shows "i < int (length emails) \<longrightarrow> 0 < bsize"
  using assms
  apply (rule processBatch_loop.raw_induct
      [where Pa = "\<lambda>((((((P, base), emails), bsize), i), acc), w) y. i < int (length emails) \<longrightarrow> 0 < bsize",
        simplified, rotated])
  apply (auto split: if_splits prod.splits)
  subgoal premises p for f P base emails bsize i acc w a b x1 x2
    using p(1) [OF p(4)] p(2) by (cases "i + bsize < int (length emails)") auto
  done

lemma processBatch_result:
  assumes "processBatch P base emails bsize w = Some (b, w')"
  shows "processItems P base emails emptyBatch w = (b, w')"
proof (cases "emails = []")
  case True
  then show ?thesis
    using assms unfolding processBatch_def emptyBatch_def
    by (subst (asm) processBatch_loop.simps) simp
next
  case False
  then have "0 < bsize"
    using processBatch_loop_returns [OF assms [unfolded processBatch_def]] by simp
  then show ?thesis
    using assms processBatch_loop_eq [of bsize 0 P base emails emptyBatch w]
    unfolding processBatch_def emptyBatch_def by simp
qed

lemma processBatch_total:
  "0 < bsize \<Longrightarrow> processBatch P base emails bsize w = Some (processItems P base emails emptyBatch w)"
  using processBatch_loop_eq [of bsize 0 P base emails emptyBatch w]
  unfolding processBatch_def emptyBatch_def by simp

lemma processItems_counts:
  assumes "processItems P base emails emptyBatch w = (b, w')"
  shows "processed b = length (filter pr_success (outcomes P base emails w))"
    and "failed b = length (filter (\<lambda>r. \<not> pr_success r) (outcomes P base emails w))"
    and "skipped b = 0"
    and "failedIds b = map email_id (failedItems emails (outcomes P base emails w))"
    and "processed b + failed b = length emails"
proof -
  note t = processItems_tally [OF assms]
  show p: "processed b = length (filter pr_success (outcomes P base emails w))"
    using t by (simp add: emptyBatch_def)
  show f: "failed b = length (filter (\<lambda>r. \<not> pr_success r) (outcomes P base emails w))"
    using t by (simp add: emptyBatch_def)
  show "skipped b = 0" using t by (simp add: emptyBatch_def)
  show "failedIds b = map email_id (failedItems emails (outcomes P base emails w))"
    using t by (simp add: emptyBatch_def)
  show "processed b + failed b = length emails"
    unfolding p f using sum_length_filter_compl [of pr_success "outcomes P base emails w"]
    by (simp add: outcomes_length)
qed


text \<open>Failure of materialization is what \<open>processEmail\<close> reports as a failure.\<close>

lemma missingPayload_fails:
  assumes "missingPayload email w"
  shows "processEmail P base email w =
      (\<lparr>pr_success = False, pr_node = None\<rparr>, snd (getEmailContent (email_id email) w))"
proof -
  obtain c w1 where c: "getEmailContent (email_id email) w = (c, w1)"
    by (cases "getEmailContent (email_id email) w")
  show ?thesis
    using assms c
    by (cases c) (auto simp: missingPayload_def processEmail_def processEmail_try_def)
qed

lemma raises_fails:
  assumes "raises P base email w"
  shows "processEmail P base email w =
      (\<lparr>pr_success = False, pr_node = None\<rparr>, snd (processEmail_try P base email w))"
proof -
  obtain t w1 where t: "processEmail_try P base email w = (t, w1)"
    by (cases "processEmail_try P base email w")
  show ?thesis using assms t by (cases t) (auto simp: raises_def processEmail_def)
qed

lemma processEmail_try_success:
  assumes "processEmail_try P base email w = (Inr r, w')" and "\<not> missingPayload email w"
  shows "pr_success r"
proof -
  obtain c w1 where c: "getEmailContent (email_id email) w = (c, w1)"
    by (cases "getEmailContent (email_id email) w")
  obtain content where cs: "c = Some content" and h: "truthy (htmlContent content)"
    using assms(2) c by (cases c) (auto simp: missingPayload_def)
  show ?thesis
    using assms(1) c cs h
    by (auto simp: processEmail_try_def uploadEmail_def
        split: prod.splits sum.splits option.splits if_splits)
qed

lemma fails_iff:
  "failsMaterialization P base (email, w) \<longleftrightarrow> \<not> pr_success (fst (processEmail P base email w))"
proof (cases "missingPayload email w")
  case True
  then show ?thesis
    using missingPayload_fails [OF True, of P base] by (simp add: failsMaterialization_def)
next
  case False
  obtain t w1 where t: "processEmail_try P base email w = (t, w1)"
    by (cases "processEmail_try P base email w")
  show ?thesis
  proof (cases t)
    case (Inl e)
    then show ?thesis
      using t by (simp add: failsMaterialization_def raises_def processEmail_def)
  next
    case (Inr r)
    then have "pr_success r" using processEmail_try_success [OF _ False] t by simp
    then show ?thesis
      using False t Inr by (simp add: failsMaterialization_def raises_def processEmail_def)
  qed
qed

lemma succeeds_node:
  assumes "\<not> failsMaterialization P base (email, w)"
  shows "\<exists>node. fst (processEmail P base email w) = \<lparr>pr_success = True, pr_node = Some node\<rparr>"
proof -
  obtain r w1 where r: "processEmail P base email w = (r, w1)" by (cases "processEmail P base email w")
  have s: "pr_success r" using assms r by (simp add: fails_iff)
  then obtain node where "pr_node r = Some node" using processEmail_node [OF r s] by auto
  then have "r = \<lparr>pr_success = True, pr_node = Some node\<rparr>" using s by simp
  then show ?thesis using r by simp
qed

lemma upload_raises:
  assumes "getEmailContent (email_id email) w = (Some content, w1)"
    and "htmlContent content = Some html" and "html \<noteq> []"
    and "toPathFormat P (new_Date P (createdAt email)) = Inr (year, month)"
    and "ensureFolderPath base (folderPath year month email) w1 = (Inr folderNode, w2)"
    and "nodeExists (node_id folderNode) (emailFileName P email) w2 = (None, w3)"
    and "now w3 = (t, w4)"
    and "uploadFile (node_id folderNode) (emailFileName P email) (Html html)
           (metadata P email content (isoString P t)) w4 = (Inl e, w5)"
  shows "raises P base email w"
    and "processEmail P base email w = (\<lparr>pr_success = False, pr_node = None\<rparr>, w5)"
proof -
  have "processEmail_try P base email w = (Inl e, w5)"
    using assms by (simp add: processEmail_try_def uploadEmail_def toISOString_def truthy_def)
  then show "raises P base email w"
    and "processEmail P base email w = (\<lparr>pr_success = False, pr_node = None\<rparr>, w5)"
    by (simp_all add: raises_def processEmail_def)
qed

lemma visits_items: "map fst (visits P base emails w) = emails"
  by (induction emails arbitrary: w) auto

lemma processItems_visits:
  "processItems P base emails acc w = (acc', w') \<Longrightarrow>
     processed acc' = processed acc
        + length (filter (\<lambda>v. \<not> failsMaterialization P base v) (visits P base emails w))
   \<and> failed acc' = failed acc
        + length (filter (failsMaterialization P base) (visits P base emails w))
   \<and> skipped acc' = skipped acc
   \<and> failedIds acc' = failedIds acc
        @ map (\<lambda>v. email_id (fst v)) (filter (failsMaterialization P base) (visits P base emails w))"
proof (induction emails arbitrary: acc w)
  case Nil
  then show ?case by simp
next
  case (Cons email rest)
  obtain r w1 where r: "processEmail P base email w = (r, w1)" by (cases "processEmail P base email w")
  have step: "processItems P base rest (tally r email acc) w1 = (acc', w')"
    using Cons.prems r by simp
  note ih = Cons.IH [OF step]
  show ?case
  proof (cases "pr_success r")
    case True
    then have "pr_node r \<noteq> None" using processEmail_node [OF r] by simp
    moreover have "\<not> failsMaterialization P base (email, w)" using True r by (simp add: fails_iff)
    ultimately show ?thesis using ih r True by (simp add: tally_cases)
  next
    case False
    then have "failsMaterialization P base (email, w)" using r by (simp add: fails_iff)
    then show ?thesis using ih r False by (simp add: tally_cases)
  qed
qed

lemma processBatch_never_returns:
  assumes "bsize \<le> 0" and "emails \<noteq> []"
  shows "processBatch P base emails bsize w = None"
proof (cases "processBatch P base emails bsize w")
  case None
  then show ?thesis .
next
  case (Some y)
  then have "0 < bsize"
    using processBatch_loop_returns [of P base emails bsize 0 emptyBatch w y] assms(2)
    by (simp add: processBatch_def emptyBatch_def)
  then show ?thesis using assms(1) by simp
qed

section \<open>The coordinator\<close>

text \<open>What a run that returns a result has done, step by step.\<close>

lemma sync_try_Inr:
  assumes "sync_try P cfg start w0 = Some (Inr r, w')"
  shows "\<exists>st w1 since w2 emails w3.
      startTime r = start
    \<and> loadSyncState (basePath cfg) w0 = (st, w1)
    \<and> sinceDate P cfg st w1 = (Inr since, w2)
    \<and> getEmailsSince P since w2 = Some (Inr emails, w3)
    \<and> totalEmails r = length emails
    \<and> (if emails = [] then
          now w3 = (endTime r, w') \<and> processedEmails r = 0 \<and> failedEmails r = 0
          \<and> skippedEmails r = 0 \<and> failedEmailIds r = []
        else (\<exists>b w4 w5.
            processBatch P (basePath cfg) emails (batchSize cfg) w3 = Some (b, w4)
          \<and> saveSyncState (basePath cfg) (isoString P start) w4 = (Inr (), w5)
          \<and> now w5 = (endTime r, w')
          \<and> processedEmails r = processed b \<and> failedEmails r = failed b
          \<and> skippedEmails r = skipped b \<and> failedEmailIds r = failedIds b))"
proof -
  obtain st w1 where l: "loadSyncState (basePath cfg) w0 = (st, w1)"
    by (cases "loadSyncState (basePath cfg) w0")
  obtain sd w2 where s: "sinceDate P cfg st w1 = (sd, w2)"
    by (cases "sinceDate P cfg st w1")
  have a1: "(case sd of
        Inl e \<Rightarrow> Some (Inl e, w2)
      | Inr since \<Rightarrow>
          (case getEmailsSince P since w2 of
             None \<Rightarrow> None
           | Some (Inl e, w3) \<Rightarrow> Some (Inl e, w3)
           | Some (Inr emails, w3) \<Rightarrow>
               if length emails = 0 then
                 (case now w3 of
                    (finish, w4) \<Rightarrow>
                      Some (Inr \<lparr>totalEmails = length emails, processedEmails = 0,
                                  failedEmails = 0, skippedEmails = 0, failedEmailIds = [],
                                  startTime = start, endTime = finish,
                                  duration = finish - start\<rparr>, w4))
               else
                 (case processBatch P (basePath cfg) emails (batchSize cfg) w3 of
                    None \<Rightarrow> None
                  | Some (batchResult, w4) \<Rightarrow>
                      (case toISOString P (Some start) of
                         Inl e \<Rightarrow> Some (Inl e, w4)
                       | Inr syncTimestamp \<Rightarrow>
                      (case saveSyncState (basePath cfg) syncTimestamp w4 of
                         (Inl e, w5) \<Rightarrow> Some (Inl e, w5)
                       | (Inr _, w5) \<Rightarrow>
                           (case now w5 of
                              (finish, w6) \<Rightarrow>
                                Some (Inr \<lparr>totalEmails = length emails,
                                            processedEmails = processed batchResult,
                                            failedEmails = failed batchResult,
                                            skippedEmails = skipped batchResult,
                                            failedEmailIds = failedIds batchResult,
                                            startTime = start, endTime = finish,
                                            duration = finish - start\<rparr>, w6))))))) =
      Some (Inr r, w')"
    using assms by (simp add: sync_try_def l s)
  then obtain since where sd: "sd = Inr since" by (cases sd) auto
  obtain emails w3 where g: "getEmailsSince P since w2 = Some (Inr emails, w3)"
    using a1 unfolding sd by (auto split: option.splits sum.splits prod.splits)
  show ?thesis
  proof (cases "emails = []")
    case True
    obtain finish w4 where f: "now w3 = (finish, w4)" by (cases "now w3")
    have "r = \<lparr>totalEmails = length emails, processedEmails = 0,
                failedEmails = 0, skippedEmails = 0, failedEmailIds = [],
                startTime = start, endTime = finish, duration = finish - start\<rparr> \<and> w' = w4"
      using a1 True unfolding sd by (simp add: g f)
    then show ?thesis using l s sd g True f by auto
  next
    case False
    obtain b w4 where pb: "processBatch P (basePath cfg) emails (batchSize cfg) w3 = Some (b, w4)"
      using a1 False unfolding sd by (auto simp: g split: option.splits)
    obtain sv w5 where sv: "saveSyncState (basePath cfg) (isoString P start) w4 = (sv, w5)"
      by (cases "saveSyncState (basePath cfg) (isoString P start) w4")
    obtain finish w6 where f: "now w5 = (finish, w6)" by (cases "now w5")
    have svr: "sv = Inr ()"
      using a1 False unfolding sd by (cases sv) (auto simp: g pb sv toISOString_def)
    have "r = \<lparr>totalEmails = length emails, processedEmails = processed b,
                failedEmails = failed b, skippedEmails = skipped b,
                failedEmailIds = failedIds b,
                startTime = start, endTime = finish, duration = finish - start\<rparr> \<and> w' = w6"
      using a1 False unfolding sd by (simp add: g pb sv svr f toISOString_def)
    then show ?thesis using l s sd g False pb sv svr f by auto
  qed
qed

lemma sync_Inr:
  assumes "sync P cfg w = Some (Inr r, w')"
  shows "\<exists>w0. now w = (startTime r, w0) \<and> sync_try P cfg (startTime r) w0 = Some (Inr r, w')"
proof -
  obtain start w0 where n: "now w = (start, w0)" by (cases "now w")
  have t: "sync_try P cfg start w0 = Some (Inr r, w')"
    using assms by (auto simp: sync_def n split: option.splits prod.splits sum.splits)
  then have "startTime r = start" using sync_try_Inr [OF t] by auto
  then show ?thesis using n t by simp
qed


section \<open>Properties of the batch runner and of the counters\<close>

lemma test_run:
  "\<exists>w'. sync test_platform test_config
      (test_world [mockEmail 1 ''6000'', mockEmail 2 ''6000'', mockEmail 3 ''100''] (\<lambda>_. None)) =
    Some (Inr \<lparr>totalEmails = 2, processedEmails = 1, failedEmails = 1, skippedEmails = 0,
                failedEmailIds = [2], startTime = 5000, endTime = 5030, duration = 30\<rparr>, w')"
  by (simp add: eval_defs)

lemma test_batch:
  "\<exists>w'. processBatch test_platform ''/Test''
        [mockEmail 1 ''6000'', mockEmail 2 ''6000'', mockEmail 3 ''6000'', mockEmail 5 ''6000''] 50
        (test_world [] (fault_at 20)) =
      Some (\<lparr>processed = 2, failed = 2, skipped = 0, failedIds = [2, 3]\<rparr>, w')"
  by (simp add: eval_defs fault_at_def)

lemma test_batch_visits:
  "map (\<lambda>v. (email_id (fst v), missingPayload (fst v) (snd v),
               raises test_platform ''/Test'' (fst v) (snd v)))
     (visits test_platform ''/Test''
        [mockEmail 1 ''6000'', mockEmail 2 ''6000'', mockEmail 3 ''6000'', mockEmail 5 ''6000'']
        (test_world [] (fault_at 20))) =
   [(1, False, False), (2, True, False), (3, False, True), (5, False, False)]"
  by (simp add: eval_defs fault_at_def missingPayload_def raises_def)

text \<open>
  C3, as the code has it. With a positive batch size, for every candidate list and every
  world, the batch loop returns, and what it returns is the result of visiting all N
  candidates one after the other, each once and in order. A visit fails when the payload
  is missing or when a statement of \<open>processEmail\<close> raises, as it does when the upload
  of the HTML file raises; either way \<open>processEmail\<close> reports a failure without a node
  and the loop goes on to the next candidate. The failed count is the number K of visits that fail, \<open>failedIds\<close> lists
  the identifiers of exactly those candidates, in order, and each of the other N - K
  visits succeeds with a node and is counted as processed.
\<close>

theorem partial_failure_containment:
  assumes "0 < bsize"
  shows "(\<exists>b w'. processBatch P base emails bsize w = Some (b, w')
    \<and> (b, w') = processItems P base emails emptyBatch w
    \<and> map fst (visits P base emails w) = emails
    \<and> failed b = length (filter (failsMaterialization P base) (visits P base emails w))
    \<and> failedIds b =
        map (\<lambda>v. email_id (fst v)) (filter (failsMaterialization P base) (visits P base emails w))
    \<and> processed b =
        length (filter (\<lambda>v. \<not> failsMaterialization P base v) (visits P base emails w))
    \<and> processed b = length emails - failed b
    \<and> skipped b = 0
    \<and> (\<forall>v \<in> set (visits P base emails w).
          (missingPayload (fst v) (snd v) \<longrightarrow>
             processEmail P base (fst v) (snd v) =
               (\<lparr>pr_success = False, pr_node = None\<rparr>,
                snd (getEmailContent (email_id (fst v)) (snd v))))
        \<and> (raises P base (fst v) (snd v) \<longrightarrow>
             processEmail P base (fst v) (snd v) =
               (\<lparr>pr_success = False, pr_node = None\<rparr>,
                snd (processEmail_try P base (fst v) (snd v))))
        \<and> (\<not> failsMaterialization P base v \<longrightarrow>
             (\<exists>node. fst (processEmail P base (fst v) (snd v)) =
                \<lparr>pr_success = True, pr_node = Some node\<rparr>))))
    \<and> (\<forall>email u content u1 html year month folderNode u2 u3 t u4 e u5.
          getEmailContent (email_id email) u = (Some content, u1)
        \<and> htmlContent content = Some html \<and> html \<noteq> []
        \<and> toPathFormat P (new_Date P (createdAt email)) = Inr (year, month)
        \<and> ensureFolderPath base (folderPath year month email) u1 = (Inr folderNode, u2)
        \<and> nodeExists (node_id folderNode) (emailFileName P email) u2 = (None, u3)
        \<and> now u3 = (t, u4)
        \<and> uploadFile (node_id folderNode) (emailFileName P email) (Html html)
              (metadata P email content (isoString P t)) u4 = (Inl e, u5) \<longrightarrow>
          raises P base email u
        \<and> processEmail P base email u = (\<lparr>pr_success = False, pr_node = None\<rparr>, u5))"
proof -
  obtain b w' where r: "processItems P base emails emptyBatch w = (b, w')"
    by (cases "processItems P base emails emptyBatch w")
  have pb: "processBatch P base emails bsize w = Some (b, w')"
    using processBatch_total [OF assms, of P base emails w] r by simp
  note t = processItems_visits [OF r]
  have f: "failed b = length (filter (failsMaterialization P base) (visits P base emails w))"
    using t by (simp add: emptyBatch_def)
  have i: "failedIds b =
      map (\<lambda>v. email_id (fst v)) (filter (failsMaterialization P base) (visits P base emails w))"
    using t by (simp add: emptyBatch_def)
  have p: "processed b =
      length (filter (\<lambda>v. \<not> failsMaterialization P base v) (visits P base emails w))"
    using t by (simp add: emptyBatch_def)
  have s: "skipped b = 0" using t by (simp add: emptyBatch_def)
  have n: "processed b = length emails - failed b"
    using processItems_counts(5) [OF r] by simp
  have each: "\<forall>v \<in> set (visits P base emails w).
          (missingPayload (fst v) (snd v) \<longrightarrow>
             processEmail P base (fst v) (snd v) =
               (\<lparr>pr_success = False, pr_node = None\<rparr>,
                snd (getEmailContent (email_id (fst v)) (snd v))))
        \<and> (raises P base (fst v) (snd v) \<longrightarrow>
             processEmail P base (fst v) (snd v) =
               (\<lparr>pr_success = False, pr_node = None\<rparr>,
                snd (processEmail_try P base (fst v) (snd v))))
        \<and> (\<not> failsMaterialization P base v \<longrightarrow>
             (\<exists>node. fst (processEmail P base (fst v) (snd v)) =
                \<lparr>pr_success = True, pr_node = Some node\<rparr>))"
  proof
    fix v
    assume "v \<in> set (visits P base emails w)"
    obtain email u where v: "v = (email, u)" by (cases v)
    show "(missingPayload (fst v) (snd v) \<longrightarrow>
             processEmail P base (fst v) (snd v) =
               (\<lparr>pr_success = False, pr_node = None\<rparr>,
                snd (getEmailContent (email_id (fst v)) (snd v))))
        \<and> (raises P base (fst v) (snd v) \<longrightarrow>
             processEmail P base (fst v) (snd v) =
               (\<lparr>pr_success = False, pr_node = None\<rparr>,
                snd (processEmail_try P base (fst v) (snd v))))
        \<and> (\<not> failsMaterialization P base v \<longrightarrow>
             (\<exists>node. fst (processEmail P base (fst v) (snd v)) =
                \<lparr>pr_success = True, pr_node = Some node\<rparr>))"
      unfolding v using missingPayload_fails [of email u P base] raises_fails [of P base email u]
        succeeds_node [of P base email u] by simp
  qed
  note vi = visits_items [of P base emails w]
  have main: "\<exists>b w'. processBatch P base emails bsize w = Some (b, w')
    \<and> (b, w') = processItems P base emails emptyBatch w
    \<and> map fst (visits P base emails w) = emails
    \<and> failed b = length (filter (failsMaterialization P base) (visits P base emails w))
    \<and> failedIds b =
        map (\<lambda>v. email_id (fst v)) (filter (failsMaterialization P base) (visits P base emails w))
    \<and> processed b =
        length (filter (\<lambda>v. \<not> failsMaterialization P base v) (visits P base emails w))
    \<and> processed b = length emails - failed b
    \<and> skipped b = 0
    \<and> (\<forall>v \<in> set (visits P base emails w).
          (missingPayload (fst v) (snd v) \<longrightarrow>
             processEmail P base (fst v) (snd v) =
               (\<lparr>pr_success = False, pr_node = None\<rparr>,
                snd (getEmailContent (email_id (fst v)) (snd v))))
        \<and> (raises P base (fst v) (snd v) \<longrightarrow>
             processEmail P base (fst v) (snd v) =
               (\<lparr>pr_success = False, pr_node = None\<rparr>,
                snd (processEmail_try P base (fst v) (snd v))))
        \<and> (\<not> failsMaterialization P base v \<longrightarrow>
             (\<exists>node. fst (processEmail P base (fst v) (snd v)) =
                \<lparr>pr_success = True, pr_node = Some node\<rparr>)))"
    using pb r [symmetric] vi f i p n s each by (intro exI conjI)
  have upload: "\<forall>email u content u1 html year month folderNode u2 u3 t u4 e u5.
          getEmailContent (email_id email) u = (Some content, u1)
        \<and> htmlContent content = Some html \<and> html \<noteq> []
        \<and> toPathFormat P (new_Date P (createdAt email)) = Inr (year, month)
        \<and> ensureFolderPath base (folderPath year month email) u1 = (Inr folderNode, u2)
        \<and> nodeExists (node_id folderNode) (emailFileName P email) u2 = (None, u3)
        \<and> now u3 = (t, u4)
        \<and> uploadFile (node_id folderNode) (emailFileName P email) (Html html)
              (metadata P email content (isoString P t)) u4 = (Inl e, u5) \<longrightarrow>
          raises P base email u
        \<and> processEmail P base email u = (\<lparr>pr_success = False, pr_node = None\<rparr>, u5)"
  proof (intro allI impI, elim conjE)
    fix email u content u1 html year month folderNode u2 u3 t u4 e u5
    assume a: "getEmailContent (email_id email) u = (Some content, u1)"
      "htmlContent content = Some html" "html \<noteq> []"
      "toPathFormat P (new_Date P (createdAt email)) = Inr (year, month)"
      "ensureFolderPath base (folderPath year month email) u1 = (Inr folderNode, u2)"
      "nodeExists (node_id folderNode) (emailFileName P email) u2 = (None, u3)"
      "now u3 = (t, u4)"
      "uploadFile (node_id folderNode) (emailFileName P email) (Html html)
              (metadata P email content (isoString P t)) u4 = (Inl e, u5)"
    show "raises P base email u
        \<and> processEmail P base email u = (\<lparr>pr_success = False, pr_node = None\<rparr>, u5)"
      using upload_raises(1) [OF a] upload_raises(2) [OF a] by simp
  qed
  show ?thesis using main upload by (rule conjI)
qed

theorem partial_failure_containment_witness:
  "(0::int) < 50 \<and> (\<exists>b w'. processBatch test_platform ''/Test''
        [mockEmail 1 ''6000'', mockEmail 2 ''6000'', mockEmail 3 ''6000'', mockEmail 5 ''6000''] 50
        (test_world [] (fault_at 20)) = Some (b, w')
      \<and> failed b = 2 \<and> failedIds b = [2, 3] \<and> processed b = 2
      \<and> failedIds b =
          map (\<lambda>v. email_id (fst v)) (filter (failsMaterialization test_platform ''/Test'')
            (visits test_platform ''/Test''
               [mockEmail 1 ''6000'', mockEmail 2 ''6000'', mockEmail 3 ''6000'',
                mockEmail 5 ''6000'']
               (test_world [] (fault_at 20)))))
   \<and> map (\<lambda>v. (email_id (fst v), missingPayload (fst v) (snd v),
               raises test_platform ''/Test'' (fst v) (snd v)))
        (visits test_platform ''/Test''
           [mockEmail 1 ''6000'', mockEmail 2 ''6000'', mockEmail 3 ''6000'', mockEmail 5 ''6000'']
           (test_world [] (fault_at 20))) =
      [(1, False, False), (2, True, False), (3, False, True), (5, False, False)]"
proof -
  define es where
    "es = [mockEmail 1 ''6000'', mockEmail 2 ''6000'', mockEmail 3 ''6000'', mockEmail 5 ''6000'']"
  define vs where "vs = visits test_platform ''/Test'' es (test_world [] (fault_at 20))"
  have pos: "(0::int) < 50" by simp
  obtain b w' where b: "processBatch test_platform ''/Test'' es 50 (test_world [] (fault_at 20)) =
      Some (b, w')"
    and i: "failedIds b =
      map (\<lambda>v. email_id (fst v)) (filter (failsMaterialization test_platform ''/Test'') vs)"
    using partial_failure_containment
      [OF pos, of test_platform "''/Test''" es "test_world [] (fault_at 20)"]
    unfolding vs_def by blast
  obtain u where "processBatch test_platform ''/Test'' es 50 (test_world [] (fault_at 20)) =
      Some (\<lparr>processed = 2, failed = 2, skipped = 0, failedIds = [2, 3]\<rparr>, u)"
    using test_batch unfolding es_def by blast
  then have "failed b = 2 \<and> failedIds b = [2, 3] \<and> processed b = 2" using b by simp
  then have "\<exists>b w'. processBatch test_platform ''/Test'' es 50 (test_world [] (fault_at 20)) =
        Some (b, w')
      \<and> failed b = 2 \<and> failedIds b = [2, 3] \<and> processed b = 2
      \<and> failedIds b =
          map (\<lambda>v. email_id (fst v)) (filter (failsMaterialization test_platform ''/Test'') vs)"
    using b i by blast
  then show ?thesis using pos test_batch_visits unfolding es_def vs_def by blast
qed

text \<open>
  C3, as stated, fails: \<open>config.ts\<close> accepts a batch size of 0, and with it the batch loop
  never returns for a list of one candidate that has a body, so there is no failed
  count.
\<close>

theorem partial_failure_containment_counterexample:
  "processBatch test_platform ''/Test'' [mockEmail 1 ''6000''] 0 (test_world [] (\<lambda>_. None)) = None"
  by (rule processBatch_never_returns) simp_all

text \<open>
  C6. Every result that \<open>sync\<close> returns satisfies the counter equation: the total is the
  sum of the processed, failed and skipped counts.
\<close>

theorem counter_equation:
  assumes "sync P cfg w = Some (Inr r, w')"
  shows "totalEmails r = processedEmails r + failedEmails r + skippedEmails r"
proof -
  obtain w0 where "sync_try P cfg (startTime r) w0 = Some (Inr r, w')"
    using sync_Inr [OF assms] by blast
  then obtain emails w3 where tot: "totalEmails r = length emails"
    and c: "if emails = [] then
          now w3 = (endTime r, w') \<and> processedEmails r = 0 \<and> failedEmails r = 0
          \<and> skippedEmails r = 0 \<and> failedEmailIds r = []
        else (\<exists>b w4 w5.
            processBatch P (basePath cfg) emails (batchSize cfg) w3 = Some (b, w4)
          \<and> saveSyncState (basePath cfg) (isoString P (startTime r)) w4 = (Inr (), w5)
          \<and> now w5 = (endTime r, w')
          \<and> processedEmails r = processed b \<and> failedEmails r = failed b
          \<and> skippedEmails r = skipped b \<and> failedEmailIds r = failedIds b)"
    using sync_try_Inr [of P cfg "startTime r" w0 r w'] by blast
  show ?thesis
  proof (cases "emails = []")
    case True
    then show ?thesis using tot c by simp
  next
    case False
    then obtain b w4 where pb: "processBatch P (basePath cfg) emails (batchSize cfg) w3 = Some (b, w4)"
      and eq: "processedEmails r = processed b" "failedEmails r = failed b"
        "skippedEmails r = skipped b"
      using c by auto
    note items = processBatch_result [OF pb]
    show ?thesis
      using tot eq processItems_counts(3,5) [OF items] by simp
  qed
qed

theorem counter_equation_witness:
  "\<exists>r w'. sync test_platform test_config
      (test_world [mockEmail 1 ''6000'', mockEmail 2 ''6000'', mockEmail 3 ''100''] (\<lambda>_. None)) =
      Some (Inr r, w')
    \<and> totalEmails r = 2 \<and> processedEmails r = 1 \<and> failedEmails r = 1
    \<and> totalEmails r = processedEmails r + failedEmails r + skippedEmails r"
proof -
  obtain w' where run: "sync test_platform test_config
      (test_world [mockEmail 1 ''6000'', mockEmail 2 ''6000'', mockEmail 3 ''100''] (\<lambda>_. None)) =
    Some (Inr \<lparr>totalEmails = 2, processedEmails = 1, failedEmails = 1, skippedEmails = 0,
                failedEmailIds = [2], startTime = 5000, endTime = 5030, duration = 30\<rparr>, w')"
    using test_run by blast
  show ?thesis using counter_equation [OF run] run by simp
qed

text \<open>
  C10. Every result that \<open>sync\<close> returns has a skipped count of zero: whenever
  \<open>processEmail\<close> reports success it also returns a node, the one found by the existence
  check included, so the classification counts the item as processed.
\<close>

theorem skipped_always_zero:
  assumes "sync P cfg w = Some (Inr r, w')"
  shows "skippedEmails r = 0
    \<and> (\<forall>email w0 pr w1 acc.
          processEmail P (basePath cfg) email w0 = (pr, w1) \<and> pr_success pr \<longrightarrow>
            pr_node pr \<noteq> None \<and> tally pr email acc = acc\<lparr>processed := Suc (processed acc)\<rparr>)
    \<and> (\<forall>email w0 content w1 year month folderNode w2 existingNode w3.
          getEmailContent (email_id email) w0 = (Some content, w1) \<and> truthy (htmlContent content)
          \<and> toPathFormat P (new_Date P (createdAt email)) = Inr (year, month)
          \<and> ensureFolderPath (basePath cfg) (folderPath year month email) w1 = (Inr folderNode, w2)
          \<and> nodeExists (node_id folderNode) (emailFileName P email) w2 = (Some existingNode, w3) \<longrightarrow>
            processEmail P (basePath cfg) email w0 =
              (\<lparr>pr_success = True, pr_node = Some existingNode\<rparr>, w3))"
proof -
  obtain w0 where "sync_try P cfg (startTime r) w0 = Some (Inr r, w')"
    using sync_Inr [OF assms] by blast
  then obtain emails w3 where
    c: "if emails = [] then
          now w3 = (endTime r, w') \<and> processedEmails r = 0 \<and> failedEmails r = 0
          \<and> skippedEmails r = 0 \<and> failedEmailIds r = []
        else (\<exists>b w4 w5.
            processBatch P (basePath cfg) emails (batchSize cfg) w3 = Some (b, w4)
          \<and> saveSyncState (basePath cfg) (isoString P (startTime r)) w4 = (Inr (), w5)
          \<and> now w5 = (endTime r, w')
          \<and> processedEmails r = processed b \<and> failedEmails r = failed b
          \<and> skippedEmails r = skipped b \<and> failedEmailIds r = failedIds b)"
    using sync_try_Inr [of P cfg "startTime r" w0 r w'] by blast
  have z: "skippedEmails r = 0"
  proof (cases "emails = []")
    case True
    then show ?thesis using c by simp
  next
    case False
    then obtain b w4 where pb: "processBatch P (basePath cfg) emails (batchSize cfg) w3 = Some (b, w4)"
      and eq: "skippedEmails r = skipped b"
      using c by auto
    show ?thesis using eq processItems_counts(3) [OF processBatch_result [OF pb]] by simp
  qed
  have n: "\<forall>email w0 pr w1 acc.
          processEmail P (basePath cfg) email w0 = (pr, w1) \<and> pr_success pr \<longrightarrow>
            pr_node pr \<noteq> None \<and> tally pr email acc = acc\<lparr>processed := Suc (processed acc)\<rparr>"
  proof (intro allI impI, elim conjE)
    fix email w0 pr w1 acc
    assume a: "processEmail P (basePath cfg) email w0 = (pr, w1)" and s: "pr_success pr"
    have "pr_node pr \<noteq> None" using processEmail_node [OF a s] .
    then show "pr_node pr \<noteq> None \<and> tally pr email acc = acc\<lparr>processed := Suc (processed acc)\<rparr>"
      using s by (simp add: tally_cases)
  qed
  have e: "\<forall>email w0 content w1 year month folderNode w2 existingNode w3.
          getEmailContent (email_id email) w0 = (Some content, w1) \<and> truthy (htmlContent content)
          \<and> toPathFormat P (new_Date P (createdAt email)) = Inr (year, month)
          \<and> ensureFolderPath (basePath cfg) (folderPath year month email) w1 = (Inr folderNode, w2)
          \<and> nodeExists (node_id folderNode) (emailFileName P email) w2 = (Some existingNode, w3) \<longrightarrow>
            processEmail P (basePath cfg) email w0 =
              (\<lparr>pr_success = True, pr_node = Some existingNode\<rparr>, w3)"
    by (simp add: processEmail_def processEmail_try_def)
  show ?thesis using z n e by blast
qed

theorem skipped_always_zero_witness:
  "\<exists>r w'. sync test_platform test_config
      (test_world [mockEmail 1 ''6000'', mockEmail 2 ''6000'', mockEmail 3 ''100''] (\<lambda>_. None)) =
      Some (Inr r, w')
    \<and> processedEmails r = 1 \<and> skippedEmails r = 0"
proof -
  obtain w' where run: "sync test_platform test_config
      (test_world [mockEmail 1 ''6000'', mockEmail 2 ''6000'', mockEmail 3 ''100''] (\<lambda>_. None)) =
    Some (Inr \<lparr>totalEmails = 2, processedEmails = 1, failedEmails = 1, skippedEmails = 0,
                failedEmailIds = [2], startTime = 5000, endTime = 5030, duration = 30\<rparr>, w')"
    using test_run by blast
  show ?thesis using skipped_always_zero [OF run] run by simp
qed

section \<open>How the operations change the world\<close>

lemma grows_refl: "grows ns ns"
  by (simp add: grows_def)

lemma grows_trans: "grows a b \<Longrightarrow> grows b c \<Longrightarrow> grows a c"
  by (auto simp: grows_def)

lemma writes_refl: "writes {} w w"
  by (simp add: writes_def frame_def grows_refl)

lemma writes_trans: "writes U a b \<Longrightarrow> writes V b c \<Longrightarrow> writes (U \<union> V) a c"
  unfolding writes_def frame_def using grows_trans by (auto 4 3)

lemma writes_quiet_trans: "writes {} a b \<Longrightarrow> writes V b c \<Longrightarrow> writes V a c"
  using writes_trans [of "{}" a b V c] by simp

lemma writes_trans_quiet: "writes V a b \<Longrightarrow> writes {} b c \<Longrightarrow> writes V a c"
  using writes_trans [of V a b "{}" c] by simp

lemma writes_mono: "writes U a b \<Longrightarrow> U \<subseteq> V \<Longrightarrow> writes V a b"
  unfolding writes_def by blast

lemma now_writes: "now w = (t, w') \<Longrightarrow> writes {} w w'"
  by (auto simp: now_def writes_def frame_def grows_refl)

lemma transport_writes: "transport w = (x, w') \<Longrightarrow> writes {} w w'"
  by (auto simp: transport_def writes_def frame_def grows_refl)

lemma marker_values_append:
  "marker_values (ns @ ms) = marker_values ns @ marker_values ms"
  by (simp add: marker_values_def)

lemma srv_create_grows:
  "srv_create ns pid nm fld props = Inr (n, ns') \<Longrightarrow> ns' = ns @ [n] \<and> node_properties n = props"
  by (auto simp: srv_create_def Let_def split: if_splits)

lemma ident_merge: "ident (merge_properties props n) = ident n"
  by (simp add: ident_def merge_properties_def)

lemma srv_update_ident:
  "srv_update ns nid props = Inr (n, ns') \<Longrightarrow> map ident ns' = map ident ns"
  by (auto simp: srv_update_def ident_merge split: option.splits)

lemma marker_values_merge:
  "set (marker_values [merge_properties props n]) \<subseteq>
     set (marker_values [n]) \<union> snd ` {kv \<in> set props. fst kv = ''mkto:lastSyncTimestamp''}"
  by (auto simp: marker_values_def merge_properties_def split: option.splits)

lemma set_marker_values: "set (marker_values ns) = (\<Union>n \<in> set ns. set (marker_values [n]))"
  by (induction ns) (auto simp: marker_values_def)

lemma marker_values_update:
  "set (marker_values (map (\<lambda>m. if node_id m = nid then merge_properties props m else m) ns)) \<subseteq>
     set (marker_values ns) \<union> snd ` {kv \<in> set props. fst kv = ''mkto:lastSyncTimestamp''}"
proof
  fix v
  assume "v \<in> set (marker_values (map (\<lambda>m. if node_id m = nid then merge_properties props m else m) ns))"
  then obtain m where m: "m \<in> set ns"
    and v: "v \<in> set (marker_values [if node_id m = nid then merge_properties props m else m])"
    by (subst (asm) set_marker_values) auto
  show "v \<in> set (marker_values ns) \<union> snd ` {kv \<in> set props. fst kv = ''mkto:lastSyncTimestamp''}"
  proof (cases "node_id m = nid")
    case True
    then have "v \<in> set (marker_values [m]) \<union> snd ` {kv \<in> set props. fst kv = ''mkto:lastSyncTimestamp''}"
      using v marker_values_merge [of props m] by auto
    then show ?thesis using m by (subst set_marker_values) auto
  next
    case False
    then show ?thesis using v m by (subst set_marker_values) auto
  qed
qed


lemma nodes_update_writes:
  assumes "writes {} w w1" and "grows (alf_nodes w1) ns"
    and "set (marker_values ns) \<subseteq> set (marker_values (alf_nodes w1)) \<union> V"
  shows "writes V w (w1\<lparr>alf_nodes := ns\<rparr>)"
proof -
  have "writes V w1 (w1\<lparr>alf_nodes := ns\<rparr>)"
    using assms(2,3) by (simp add: writes_def frame_def)
  then show ?thesis using assms(1) by (rule writes_quiet_trans [rotated])
qed

lemma create_writes:
  assumes "writes {} w w1" and "srv_create (alf_nodes w1) pid nm fld props = Inr (n, ns)"
  shows "writes (set (marker_values [n])) w (w1\<lparr>alf_nodes := ns\<rparr>)"
proof -
  have ns: "ns = alf_nodes w1 @ [n]" using srv_create_grows [OF assms(2)] by simp
  have "grows (alf_nodes w1) ns" unfolding ns grows_def by simp
  moreover have "set (marker_values ns) \<subseteq> set (marker_values (alf_nodes w1)) \<union> set (marker_values [n])"
    unfolding ns by (simp add: marker_values_append)
  ultimately show ?thesis using assms(1) by (rule nodes_update_writes [rotated])
qed

lemma update_writes:
  assumes "writes {} w w1" and "srv_update (alf_nodes w1) nid props = Inr (n, ns)"
  shows "writes (snd ` {kv \<in> set props. fst kv = ''mkto:lastSyncTimestamp''}) w (w1\<lparr>alf_nodes := ns\<rparr>)"
proof -
  have "grows (alf_nodes w1) ns"
    using srv_update_ident [OF assms(2)] by (simp add: grows_def)
  moreover have "ns = map (\<lambda>m. if node_id m = nid then merge_properties props m else m) (alf_nodes w1)"
    using assms(2) by (auto simp: srv_update_def split: option.splits)
  then have "set (marker_values ns) \<subseteq> set (marker_values (alf_nodes w1))
      \<union> snd ` {kv \<in> set props. fst kv = ''mkto:lastSyncTimestamp''}"
    using marker_values_update [of nid props "alf_nodes w1"] by simp
  ultimately show ?thesis using assms(1) by (rule nodes_update_writes [rotated])
qed

lemma new_node_values:
  "srv_create ns pid nm fld props = Inr (n, ns') \<Longrightarrow>
     set (marker_values [n]) =
       (case props of None \<Rightarrow> {}
        | Some ps \<Rightarrow> snd ` {kv \<in> set ps. fst kv = ''mkto:lastSyncTimestamp''})"
  using srv_create_grows [of ns pid nm fld props n ns']
  by (auto simp: marker_values_def split: option.splits)

lemma getEmails_writes: "getEmails off mx w = (r, w') \<Longrightarrow> writes {} w w'"
  by (auto simp: getEmails_def split: prod.splits option.splits dest: transport_writes)

lemma getEmailById_writes: "getEmailById i w = (r, w') \<Longrightarrow> writes {} w w'"
  by (auto simp: getEmailById_def split: prod.splits option.splits dest: transport_writes)

lemma getEmailContent_writes:
  assumes "getEmailContent i w = (r, w')"
  shows "writes {} w w'"
proof -
  obtain x w1 where t: "transport w = (x, w1)" by (cases "transport w")
  note a = transport_writes [OF t]
  show ?thesis
  proof (cases "x = None \<and> first_result (mkto_content w1 i) \<noteq> None")
    case False
    then have "w' = w1"
      using assms t by (auto simp: getEmailContent_def split: option.splits)
    then show ?thesis using a by simp
  next
    case True
    obtain y w2 where g: "getEmailById i w1 = (y, w2)" by (cases "getEmailById i w1")
    have "w' = w2"
      using assms t True g by (auto simp: getEmailContent_def split: option.splits sum.splits)
    then show ?thesis using a getEmailById_writes [OF g] writes_quiet_trans by blast
  qed
qed

lemma getNodeByPath_writes: "getNodeByPath path w = (r, w') \<Longrightarrow> writes {} w w'"
  by (auto simp: getNodeByPath_def split: prod.splits option.splits dest: transport_writes)

lemma nodeExists_writes: "nodeExists parent nm w = (r, w') \<Longrightarrow> writes {} w w'"
  by (auto simp: nodeExists_def split: prod.splits option.splits list.splits dest: transport_writes)

lemma getRootNodeId_writes: "getRootNodeId base w = (r, w') \<Longrightarrow> writes {} w w'"
  by (auto simp: getRootNodeId_def split: prod.splits option.splits sum.splits
      dest: getNodeByPath_writes)

lemma createFolder_writes:
  assumes "createFolder parent nm w = (r, w')"
  shows "writes {} w w'"
proof -
  obtain x w1 where t: "transport w = (x, w1)" by (cases "transport w")
  note a = transport_writes [OF t]
  show ?thesis
  proof (cases "x = None \<and> \<not> isl (srv_create (alf_nodes w1) parent nm True None)")
    case False
    then have "w' = w1"
      using assms t by (auto simp: createFolder_def split: option.splits sum.splits)
    then show ?thesis using a by simp
  next
    case True
    then obtain n ns where c: "srv_create (alf_nodes w1) parent nm True None = Inr (n, ns)"
      by (cases "srv_create (alf_nodes w1) parent nm True None") auto
    have "w' = w1\<lparr>alf_nodes := ns\<rparr>"
      using assms t True c by (simp add: createFolder_def)
    then show ?thesis using create_writes [OF a c] new_node_values [OF c] by simp
  qed
qed

lemma uploadFile_writes:
  assumes "uploadFile parent nm content props w = (r, w')"
  shows "writes (snd ` {kv \<in> set props. fst kv = ''mkto:lastSyncTimestamp''}) w w'"
proof -
  obtain x w1 where t: "transport w = (x, w1)" by (cases "transport w")
  note a = transport_writes [OF t]
  show ?thesis
  proof (cases "x = None \<and> \<not> isl (srv_create (alf_nodes w1) parent nm False (Some props))")
    case False
    then have "w' = w1"
      using assms t by (auto simp: uploadFile_def split: option.splits sum.splits)
    then show ?thesis using a writes_mono by blast
  next
    case True
    then obtain n ns where c: "srv_create (alf_nodes w1) parent nm False (Some props) = Inr (n, ns)"
      by (cases "srv_create (alf_nodes w1) parent nm False (Some props)") auto
    have "w' = w1\<lparr>alf_nodes := ns\<rparr>"
      using assms t True c by (simp add: uploadFile_def)
    then show ?thesis using create_writes [OF a c] new_node_values [OF c] by simp
  qed
qed

lemma updateNodeProperties_writes:
  assumes "updateNodeProperties nid props w = (r, w')"
  shows "writes (snd ` {kv \<in> set props. fst kv = ''mkto:lastSyncTimestamp''}) w w'"
proof -
  obtain x w1 where t: "transport w = (x, w1)" by (cases "transport w")
  note a = transport_writes [OF t]
  show ?thesis
  proof (cases "x = None \<and> \<not> isl (srv_update (alf_nodes w1) nid props)")
    case False
    then have "w' = w1"
      using assms t by (auto simp: updateNodeProperties_def split: option.splits sum.splits)
    then show ?thesis using a writes_mono by blast
  next
    case True
    then obtain n ns where c: "srv_update (alf_nodes w1) nid props = Inr (n, ns)"
      by (cases "srv_update (alf_nodes w1) nid props") auto
    have "w' = w1\<lparr>alf_nodes := ns\<rparr>"
      using assms t True c by (simp add: updateNodeProperties_def)
    then show ?thesis using update_writes [OF a c] by simp
  qed
qed

lemma ensureFolderPath_loop_writes:
  "ensureFolderPath_loop parts cur node w = (r, w') \<Longrightarrow> writes {} w w'"
proof (induction parts arbitrary: cur node w)
  case Nil
  then show ?case by (simp add: writes_refl)
next
  case (Cons part parts)
  obtain g w1 where g: "getNodeByPath (cur @ ''/'' @ part) w = (g, w1)"
    by (cases "getNodeByPath (cur @ ''/'' @ part) w")
  note a = getNodeByPath_writes [OF g]
  show ?case
  proof (cases g)
    case (Inl e)
    then show ?thesis using Cons.prems g a by simp
  next
    case (Inr found)
    show ?thesis
    proof (cases found)
      case (Some n)
      then have "ensureFolderPath_loop parts (cur @ ''/'' @ part) n w1 = (r, w')"
        using Cons.prems g Inr by simp
      then show ?thesis using Cons.IH a writes_quiet_trans by blast
    next
      case None
      obtain c w2 where c: "createFolder (node_id node) part w1 = (c, w2)"
        by (cases "createFolder (node_id node) part w1")
      have b: "writes {} w w2" using a createFolder_writes [OF c] writes_quiet_trans by blast
      show ?thesis
      proof (cases c)
        case (Inl e)
        then show ?thesis using Cons.prems g Inr None c b by simp
      next
        case (Inr n)
        then have "ensureFolderPath_loop parts (cur @ ''/'' @ part) n w2 = (r, w')"
          using Cons.prems g \<open>g = Inr found\<close> None c by simp
        then show ?thesis using Cons.IH b writes_quiet_trans by blast
      qed
    qed
  qed
qed

lemma ensureFolderPath_writes:
  assumes "ensureFolderPath base path w = (r, w')"
  shows "writes {} w w'"
proof -
  obtain g w1 where g: "getNodeByPath base w = (g, w1)" by (cases "getNodeByPath base w")
  note a = getNodeByPath_writes [OF g]
  show ?thesis
  proof (cases "\<exists>n. g = Inr (Some n)")
    case False
    then have "w' = w1"
      using assms g by (auto simp: ensureFolderPath_def split: sum.splits option.splits)
    then show ?thesis using a by simp
  next
    case True
    then obtain n where "g = Inr (Some n)" by blast
    then have "ensureFolderPath_loop (pathParts path) base n w1 = (r, w')"
      using assms g by (simp add: ensureFolderPath_def)
    then show ?thesis using ensureFolderPath_loop_writes a writes_quiet_trans by blast
  qed
qed


lemma getEmailsSince_loop_writes:
  assumes "getEmailsSince_loop P since off acc w = Some y"
  shows "writes {} w (snd y)"
  using assms
  apply (rule getEmailsSince_loop.raw_induct
      [where Pa = "\<lambda>((((P, since), off), acc), w) y. writes {} w (snd y)", simplified, rotated])
  subgoal premises p for f P since off acc w y
  proof -
    obtain g w1 where g: "getEmails off 200 w = (g, w1)" by (cases "getEmails off 200 w")
    note a = getEmails_writes [OF g]
    show ?thesis
    proof (cases "\<exists>resp rs. g = Inr resp \<and> success resp \<and> result resp = Some rs
        \<and> moreResult resp = Some True")
      case False
      then have "snd y = w1"
        using p(2) g by (auto split: sum.splits option.splits if_splits)
      then show ?thesis using a by simp
    next
      case True
      then obtain resp rs where "g = Inr resp" "success resp" "result resp = Some rs"
        "moreResult resp = Some True" by blast
      then have "f P since (off + 200) (acc @ recentEmails P since rs) w1 = Some y"
        using p(2) g by simp
      then show ?thesis using p(1) a writes_quiet_trans by blast
    qed
  qed
  done

lemma getEmailsSince_writes:
  "getEmailsSince P since w = Some (r, w') \<Longrightarrow> writes {} w w'"
  using getEmailsSince_loop_writes [of P since 0 "[]" w "(r, w')"]
  by (auto simp: getEmailsSince_def writes_refl split: sum.splits)

lemma loadSyncState_writes:
  assumes "loadSyncState base w = (st, w')"
  shows "writes {} w w'"
proof -
  obtain g w1 where g: "getRootNodeId base w = (g, w1)" by (cases "getRootNodeId base w")
  note a = getRootNodeId_writes [OF g]
  show ?thesis
  proof (cases g)
    case (Inl e)
    then have "w' = w1" using assms g by (simp add: loadSyncState_def loadSyncState_try_def)
    then show ?thesis using a by simp
  next
    case (Inr rootNode)
    obtain n w2 where n: "nodeExists rootNode ''.sync-state.json'' w1 = (n, w2)"
      by (cases "nodeExists rootNode ''.sync-state.json'' w1")
    have "w' = w2"
      using assms g Inr n
      by (auto simp: loadSyncState_def loadSyncState_try_def split: option.splits if_splits)
    then show ?thesis using a nodeExists_writes [OF n] writes_quiet_trans by blast
  qed
qed

lemma marker_property_values:
  "snd ` {kv \<in> set [(''mkto:lastSyncTimestamp'', ts)]. fst kv = ''mkto:lastSyncTimestamp''} = {ts}"
  by auto

lemma saveSyncState_try_writes:
  assumes "saveSyncState_try base ts w = (r, w')"
  shows "writes {ts} w w'"
proof -
  obtain g w1 where g: "getRootNodeId base w = (g, w1)" by (cases "getRootNodeId base w")
  note a = getRootNodeId_writes [OF g]
  show ?thesis
  proof (cases g)
    case (Inl e)
    then have "w' = w1" using assms g by (simp add: saveSyncState_try_def)
    then show ?thesis using a writes_mono by blast
  next
    case (Inr rootNode)
    obtain n w2 where n: "nodeExists rootNode ''.sync-state.json'' w1 = (n, w2)"
      by (cases "nodeExists rootNode ''.sync-state.json'' w1")
    have b: "writes {} w w2" using a nodeExists_writes [OF n] writes_quiet_trans by blast
    show ?thesis
    proof (cases n)
      case None
      obtain u w3 where u: "uploadFile rootNode ''.sync-state.json'' (StateJson ts)
          [(''mkto:lastSyncTimestamp'', ts)] w2 = (u, w3)"
        by (cases "uploadFile rootNode ''.sync-state.json'' (StateJson ts)
          [(''mkto:lastSyncTimestamp'', ts)] w2")
      have "w' = w3"
        using assms g Inr n None u by (auto simp: saveSyncState_try_def split: sum.splits)
      then show ?thesis
        using b uploadFile_writes [OF u] writes_quiet_trans
        unfolding marker_property_values by blast
    next
      case (Some stateNode)
      obtain u w3 where u: "updateNodeProperties (node_id stateNode)
          [(''mkto:lastSyncTimestamp'', ts)] w2 = (u, w3)"
        by (cases "updateNodeProperties (node_id stateNode) [(''mkto:lastSyncTimestamp'', ts)] w2")
      have "w' = w3"
        using assms g Inr n Some u by (auto simp: saveSyncState_try_def split: sum.splits)
      then show ?thesis
        using b updateNodeProperties_writes [OF u] writes_quiet_trans
        unfolding marker_property_values by blast
    qed
  qed
qed

lemma saveSyncState_writes:
  "saveSyncState base ts w = (r, w') \<Longrightarrow> writes {ts} w w'"
  using saveSyncState_try_writes
  by (auto simp: saveSyncState_def split: prod.splits sum.splits)

lemma metadata_no_marker:
  "snd ` {kv \<in> set (metadata P email content syncedAt). fst kv = ''mkto:lastSyncTimestamp''} = {}"
  by (auto simp: metadata_def opt_prop_def split: option.splits)

lemma uploadEmail_writes:
  assumes "uploadEmail P email content html folderNode w = (r, w')"
  shows "writes {} w w'"
proof -
  obtain t w1 where t: "now w = (t, w1)" by (cases "now w")
  note a = now_writes [OF t]
  obtain u w2 where u: "uploadFile (node_id folderNode) (emailFileName P email) (Html html)
      (metadata P email content (isoString P t)) w1 = (u, w2)"
    by (cases "uploadFile (node_id folderNode) (emailFileName P email) (Html html)
      (metadata P email content (isoString P t)) w1")
  have b: "writes {} w w2"
    using a uploadFile_writes [OF u] writes_quiet_trans unfolding metadata_no_marker by blast
  show ?thesis
  proof (cases u)
    case (Inl e)
    then have "w' = w2" using assms t u by (simp add: uploadEmail_def toISOString_def)
    then show ?thesis using b by simp
  next
    case (Inr htmlNode)
    obtain v w3 where v: "uploadFile (node_id folderNode) (metadataFileName P email)
        (MetadataJson email (content_subject content) (content_fromName content)
           (content_fromEmail content))
        [(''mkto:emailId'', string_of_int P (email_id email)),
         (''mkto:emailName'', email_name email)] w2 = (v, w3)"
      by (cases "uploadFile (node_id folderNode) (metadataFileName P email)
        (MetadataJson email (content_subject content) (content_fromName content)
           (content_fromEmail content))
        [(''mkto:emailId'', string_of_int P (email_id email)),
         (''mkto:emailName'', email_name email)] w2")
    have "w' = w3"
      using assms t u Inr v by (auto simp: uploadEmail_def toISOString_def split: sum.splits)
    moreover have "snd ` {kv \<in> set [(''mkto:emailId'', string_of_int P (email_id email)),
         (''mkto:emailName'', email_name email)]. fst kv = ''mkto:lastSyncTimestamp''} = {}"
      by auto
    then have "writes {} w2 w3" using uploadFile_writes [OF v] by (simp only:)
    ultimately show ?thesis using b writes_quiet_trans by blast
  qed
qed

lemma processEmail_try_writes:
  assumes "processEmail_try P base email w = (r, w')"
  shows "writes {} w w'"
proof -
  obtain c w1 where c: "getEmailContent (email_id email) w = (c, w1)"
    by (cases "getEmailContent (email_id email) w")
  note a = getEmailContent_writes [OF c]
  show ?thesis
  proof (cases "\<exists>content year month. c = Some content \<and> truthy (htmlContent content)
      \<and> toPathFormat P (new_Date P (createdAt email)) = Inr (year, month)")
    case False
    then have "w' = w1"
      using assms c by (auto simp: processEmail_try_def split: option.splits sum.splits if_splits)
    then show ?thesis using a by simp
  next
    case True
    then obtain content year month where k: "c = Some content" "truthy (htmlContent content)"
      "toPathFormat P (new_Date P (createdAt email)) = Inr (year, month)" by blast
    obtain f w2 where f: "ensureFolderPath base (folderPath year month email) w1 = (f, w2)"
      by (cases "ensureFolderPath base (folderPath year month email) w1")
    have b: "writes {} w w2" using a ensureFolderPath_writes [OF f] writes_quiet_trans by blast
    show ?thesis
    proof (cases f)
      case (Inl e)
      then have "w' = w2" using assms c k f by (simp add: processEmail_try_def)
      then show ?thesis using b by simp
    next
      case (Inr folderNode)
      obtain n w3 where n: "nodeExists (node_id folderNode) (emailFileName P email) w2 = (n, w3)"
        by (cases "nodeExists (node_id folderNode) (emailFileName P email) w2")
      have d: "writes {} w w3" using b nodeExists_writes [OF n] writes_quiet_trans by blast
      show ?thesis
      proof (cases n)
        case (Some existingNode)
        then have "w' = w3" using assms c k f Inr n by (simp add: processEmail_try_def)
        then show ?thesis using d by simp
      next
        case None
        then have "uploadEmail P email content
            (case htmlContent content of None \<Rightarrow> [] | Some h \<Rightarrow> h) folderNode w3 = (r, w')"
          using assms c k f Inr n by (simp add: processEmail_try_def)
        then show ?thesis using d uploadEmail_writes writes_quiet_trans by blast
      qed
    qed
  qed
qed

lemma processEmail_writes: "processEmail P base email w = (r, w') \<Longrightarrow> writes {} w w'"
  using processEmail_try_writes
  by (auto simp: processEmail_def split: prod.splits sum.splits)

lemma processItems_writes: "processItems P base emails acc w = (b, w') \<Longrightarrow> writes {} w w'"
proof (induction emails arbitrary: acc w)
  case Nil
  then show ?case by (simp add: writes_refl)
next
  case (Cons email rest)
  obtain r w1 where r: "processEmail P base email w = (r, w1)" by (cases "processEmail P base email w")
  then have "processItems P base rest (tally r email acc) w1 = (b, w')" using Cons.prems by simp
  then show ?case using Cons.IH processEmail_writes [OF r] writes_quiet_trans by blast
qed

lemma processBatch_writes: "processBatch P base emails bsize w = Some (b, w') \<Longrightarrow> writes {} w w'"
  using processBatch_result processItems_writes by blast

lemma sinceDate_writes: "sinceDate P cfg st w = (r, w') \<Longrightarrow> writes {} w w'"
  by (auto simp: sinceDate_def getDaysAgo_def writes_refl
      split: if_splits option.splits sum.splits prod.splits dest: now_writes)


section \<open>The repository as a store\<close>

lemma srv_child_find:
  "srv_child ns pid nm = find (\<lambda>n. parentId n = Some pid \<and> node_name n = nm) ns"
  by (induction ns) (auto simp: srv_child_def srv_children_def)

lemma srv_child_ident:
  "srv_child ns pid nm =
     find ((\<lambda>(i, nm', p). p = Some pid \<and> nm' = nm) \<circ> ident) ns"
  by (induction ns) (auto simp: srv_child_def srv_children_def ident_def)

lemma srv_child_in: "srv_child ns pid nm = Some n \<Longrightarrow> n \<in> set ns"
  unfolding srv_child_find by (auto simp: find_Some_iff)

lemma find_map_comp: "find q (map f xs) = map_option f (find (q \<circ> f) xs)"
  by (induction xs) auto

lemma find_append_Some: "find q xs = Some x \<Longrightarrow> find q (xs @ zs) = Some x"
  by (induction xs) auto

lemma grows_child:
  assumes "grows ns ns'" and "srv_child ns pid nm = Some n"
  shows "\<exists>n'. srv_child ns' pid nm = Some n' \<and> node_id n' = node_id n"
proof -
  let ?q = "\<lambda>(i, nm', p). p = Some pid \<and> nm' = nm"
  obtain zs where zs: "map ident ns' = map ident ns @ zs" using assms(1) by (auto simp: grows_def)
  have "find ?q (map ident ns) = Some (ident n)"
    using assms(2) unfolding srv_child_ident by (simp add: find_map_comp)
  then have "find ?q (map ident ns') = Some (ident n)"
    unfolding zs by (rule find_append_Some)
  then have "map_option ident (srv_child ns' pid nm) = Some (ident n)"
    unfolding srv_child_ident by (simp add: find_map_comp)
  then show ?thesis by (auto simp: ident_def)
qed

lemma grows_walk:
  "grows ns ns' \<Longrightarrow> srv_walk ns cur segs = Some n \<Longrightarrow> node_id cur' = node_id cur \<Longrightarrow>
     \<exists>n'. srv_walk ns' cur' segs = Some n' \<and> node_id n' = node_id n"
proof (induction segs arbitrary: cur cur')
  case Nil
  then show ?case by simp
next
  case (Cons seg segs)
  obtain m where m: "srv_child ns (node_id cur) seg = Some m" and w: "srv_walk ns m segs = Some n"
    using Cons.prems(2) by (auto split: option.splits)
  obtain m' where m': "srv_child ns' (node_id cur) seg = Some m'" and i: "node_id m' = node_id m"
    using grows_child [OF Cons.prems(1) m] by blast
  obtain n' where "srv_walk ns' m' segs = Some n'" "node_id n' = node_id n"
    using Cons.IH [OF Cons.prems(1) w i] by blast
  then show ?case using m' Cons.prems(3) by simp
qed

lemma grows_resolve:
  "grows ns ns' \<Longrightarrow> srv_resolve ns path = Some n \<Longrightarrow>
     \<exists>n'. srv_resolve ns' path = Some n' \<and> node_id n' = node_id n"
  unfolding srv_resolve_def using grows_walk [of ns ns' root_node "pathParts path" n root_node]
  by simp

lemma srv_walk_known:
  "srv_walk ns cur segs = Some n \<Longrightarrow> srv_known ns (node_id cur) \<Longrightarrow> srv_known ns (node_id n)"
proof (induction segs arbitrary: cur)
  case Nil
  then show ?case by simp
next
  case (Cons seg segs)
  obtain m where m: "srv_child ns (node_id cur) seg = Some m" and w: "srv_walk ns m segs = Some n"
    using Cons.prems(1) by (auto split: option.splits)
  have "srv_known ns (node_id m)" using srv_child_in [OF m] by (auto simp: srv_known_def)
  then show ?case using Cons.IH [OF w] by simp
qed

lemma srv_resolve_known: "srv_resolve ns path = Some n \<Longrightarrow> srv_known ns (node_id n)"
  unfolding srv_resolve_def using srv_walk_known [of ns root_node "pathParts path" n]
  by (simp add: srv_known_def)

lemma frame_grows: "writes V w w' \<Longrightarrow> grows (alf_nodes w) (alf_nodes w')"
  by (simp add: writes_def frame_def)

lemma frame_no_faults:
  "writes V w w' \<Longrightarrow> \<forall>n \<ge> calls w. faults w n = None \<Longrightarrow> \<forall>n \<ge> calls w'. faults w' n = None"
  by (auto simp: writes_def frame_def)

text \<open>A request that the transport lets through.\<close>

lemma transport_ok:
  "\<forall>n \<ge> calls w. faults w n = None \<Longrightarrow> transport w = (None, w\<lparr>calls := Suc (calls w)\<rparr>)"
  by (simp add: transport_def)

lemma srv_children_map:
  "srv_children (map (\<lambda>m. if node_id m = nid then merge_properties props m else m) ns) pid nm =
     map (\<lambda>m. if node_id m = nid then merge_properties props m else m) (srv_children ns pid nm)"
  by (induction ns) (auto simp: srv_children_def merge_properties_def)

lemma save_stores:
  assumes nf: "\<forall>n \<ge> calls w. faults w n = None"
    and base: "srv_resolve (alf_nodes w) base = Some rootNode"
    and save: "saveSyncState base ts w = (r, w')"
  shows "stored_marker base (alf_nodes w') = Some ts"
proof -
  let ?ns = "alf_nodes w"
  let ?w1 = "w\<lparr>calls := Suc (calls w)\<rparr>"
  let ?w2 = "w\<lparr>calls := Suc (Suc (calls w))\<rparr>"
  let ?w3 = "w\<lparr>calls := Suc (Suc (Suc (calls w)))\<rparr>"
  let ?props = "[(''mkto:lastSyncTimestamp'', ts)]"
  have t1: "transport w = (None, ?w1)" using transport_ok [OF nf] .
  have t2: "transport ?w1 = (None, ?w2)" using nf by (simp add: transport_def)
  have t3: "transport ?w2 = (None, ?w3)" using nf by (simp add: transport_def)
  have root: "getRootNodeId base w = (Inr (node_id rootNode), ?w1)"
    by (simp add: getRootNodeId_def getNodeByPath_def t1 base)
  show ?thesis
  proof (cases "srv_children ?ns (node_id rootNode) ''.sync-state.json''")
    case Nil
    then have ex: "nodeExists (node_id rootNode) ''.sync-state.json'' ?w1 = (None, ?w2)"
      by (simp add: nodeExists_def t2)
    have none: "srv_child ?ns (node_id rootNode) ''.sync-state.json'' = None"
      using Nil by (simp add: srv_child_def)
    define n where "n = \<lparr>node_id = srv_fresh ?ns, node_name = ''.sync-state.json'', isFolder = False,
      parentId = Some (node_id rootNode), node_properties = Some ?props\<rparr>"
    have cr: "srv_create ?ns (node_id rootNode) ''.sync-state.json'' False (Some ?props) =
        Inr (n, ?ns @ [n])"
      using srv_resolve_known [OF base] none by (simp add: srv_create_def n_def Let_def)
    have up: "uploadFile (node_id rootNode) ''.sync-state.json'' (StateJson ts) ?props ?w2 =
        (Inr n, ?w3\<lparr>alf_nodes := ?ns @ [n]\<rparr>)"
      by (simp add: uploadFile_def t3 cr)
    have w': "alf_nodes w' = ?ns @ [n]"
      using save by (auto simp: saveSyncState_def saveSyncState_try_def root ex up)
    have "grows ?ns (?ns @ [n])" by (simp add: grows_def)
    then obtain root' where r': "srv_resolve (?ns @ [n]) base = Some root'"
      and i: "node_id root' = node_id rootNode"
      using grows_resolve [OF _ base] by blast
    have "srv_children (?ns @ [n]) (node_id rootNode) ''.sync-state.json'' = [n]"
      using Nil by (simp add: srv_children_def n_def)
    then have ch: "srv_child (?ns @ [n]) (node_id rootNode) ''.sync-state.json'' = Some n"
      by (simp add: srv_child_def)
    have ps: "node_properties n = Some ?props" by (simp add: n_def)
    show ?thesis unfolding w' stored_marker_def by (simp add: r' i ch ps)
  next
    case (Cons m ms)
    then have ex: "nodeExists (node_id rootNode) ''.sync-state.json'' ?w1 = (Some m, ?w2)"
      by (simp add: nodeExists_def t2)
    let ?f = "\<lambda>k. if node_id k = node_id m then merge_properties ?props k else k"
    have "m \<in> set (srv_children ?ns (node_id rootNode) ''.sync-state.json'')"
      using Cons by simp
    then have "m \<in> set ?ns" by (simp add: srv_children_def)
    then obtain k where k: "find (\<lambda>n. node_id n = node_id m) ?ns = Some k"
      by (cases "find (\<lambda>n. node_id n = node_id m) ?ns") (auto simp: find_None_iff)
    have upd: "srv_update ?ns (node_id m) ?props = Inr (merge_properties ?props k, map ?f ?ns)"
      by (simp add: srv_update_def k)
    have up: "updateNodeProperties (node_id m) ?props ?w2 =
        (Inr (merge_properties ?props k), ?w3\<lparr>alf_nodes := map ?f ?ns\<rparr>)"
      by (simp add: updateNodeProperties_def t3 upd)
    have w': "alf_nodes w' = map ?f ?ns"
      using save by (auto simp: saveSyncState_def saveSyncState_try_def root ex up)
    have "map ident (map ?f ?ns) = map ident ?ns @ []"
      using srv_update_ident [OF upd] by (simp only: append_Nil2)
    then have "grows ?ns (map ?f ?ns)"
      unfolding grows_def by (rule exI)
    then obtain root' where r': "srv_resolve (map ?f ?ns) base = Some root'"
      and i: "node_id root' = node_id rootNode"
      using grows_resolve [OF _ base] by blast
    have "srv_children (map ?f ?ns) (node_id rootNode) ''.sync-state.json'' =
        merge_properties ?props m # map ?f ms"
      unfolding srv_children_map Cons by simp
    then have ch: "srv_child (map ?f ?ns) (node_id rootNode) ''.sync-state.json'' =
        Some (merge_properties ?props m)"
      by (simp add: srv_child_def)
    have ps: "map_of (the (node_properties (merge_properties ?props m))) ''mkto:lastSyncTimestamp''
        = Some ts \<and> node_properties (merge_properties ?props m) \<noteq> None"
      by (simp add: merge_properties_def)
    show ?thesis
      unfolding w' stored_marker_def using ps by (auto simp: r' i ch split: option.splits)
  qed
qed


section \<open>Properties of the coordinator\<close>

lemma sync_try_writes:
  assumes "sync_try P cfg start w0 = Some (Inr r, w')"
  shows "writes {isoString P start} w0 w'"
proof -
  obtain st w1 since w2 emails w3 where
    l: "loadSyncState (basePath cfg) w0 = (st, w1)"
    and s: "sinceDate P cfg st w1 = (Inr since, w2)"
    and g: "getEmailsSince P since w2 = Some (Inr emails, w3)"
    and c: "if emails = [] then
          now w3 = (endTime r, w') \<and> processedEmails r = 0 \<and> failedEmails r = 0
          \<and> skippedEmails r = 0 \<and> failedEmailIds r = []
        else (\<exists>b w4 w5.
            processBatch P (basePath cfg) emails (batchSize cfg) w3 = Some (b, w4)
          \<and> saveSyncState (basePath cfg) (isoString P start) w4 = (Inr (), w5)
          \<and> now w5 = (endTime r, w')
          \<and> processedEmails r = processed b \<and> failedEmails r = failed b
          \<and> skippedEmails r = skipped b \<and> failedEmailIds r = failedIds b)"
    using sync_try_Inr [OF assms] by blast
  have a3: "writes {} w0 w3"
    using loadSyncState_writes [OF l] sinceDate_writes [OF s] getEmailsSince_writes [OF g]
      writes_quiet_trans by blast
  show ?thesis
  proof (cases "emails = []")
    case True
    then have "now w3 = (endTime r, w')" using c by simp
    then have "writes {} w0 w'" using a3 now_writes writes_quiet_trans by blast
    then show ?thesis using writes_mono by blast
  next
    case False
    then obtain b w4 w5 where pb: "processBatch P (basePath cfg) emails (batchSize cfg) w3 = Some (b, w4)"
      and sv: "saveSyncState (basePath cfg) (isoString P start) w4 = (Inr (), w5)"
      and f: "now w5 = (endTime r, w')"
      using c by auto
    have "writes {} w0 w4" using a3 processBatch_writes [OF pb] writes_quiet_trans by blast
    then have "writes {isoString P start} w0 w5"
      using saveSyncState_writes [OF sv] writes_quiet_trans by blast
    then show ?thesis using now_writes [OF f] writes_trans_quiet by blast
  qed
qed

text \<open>
  C1. For every run of \<open>sync\<close> that returns a result for a non-empty candidate list:
  the start instant of the result is the clock value read first, the end instant is
  read later; the only marker timestamp that the run adds to the repository is the start
  instant in ISO form; and when no request fails and the base path exists, the marker
  that a reader finds after the run is the start instant.
\<close>

theorem marker_is_start_instant:
  assumes run: "sync P cfg w = Some (Inr r, w')" and ne: "totalEmails r \<noteq> 0"
  shows "startTime r = clock w (ticks w)
    \<and> endTime r = clock w (ticks w' - 1) \<and> ticks w < ticks w' - 1
    \<and> set (marker_values (alf_nodes w')) \<subseteq>
        set (marker_values (alf_nodes w)) \<union> {isoString P (startTime r)}
    \<and> ((\<forall>n \<ge> calls w. faults w n = None) \<and> srv_resolve (alf_nodes w) (basePath cfg) \<noteq> None
        \<longrightarrow> stored_marker (basePath cfg) (alf_nodes w') = Some (isoString P (startTime r)))"
proof -
  obtain w0 where n0: "now w = (startTime r, w0)"
    and t: "sync_try P cfg (startTime r) w0 = Some (Inr r, w')"
    using sync_Inr [OF run] by blast
  obtain st w1 since w2 emails w3 where
    l: "loadSyncState (basePath cfg) w0 = (st, w1)"
    and s: "sinceDate P cfg st w1 = (Inr since, w2)"
    and g: "getEmailsSince P since w2 = Some (Inr emails, w3)"
    and tot: "totalEmails r = length emails"
    and c: "if emails = [] then
          now w3 = (endTime r, w') \<and> processedEmails r = 0 \<and> failedEmails r = 0
          \<and> skippedEmails r = 0 \<and> failedEmailIds r = []
        else (\<exists>b w4 w5.
            processBatch P (basePath cfg) emails (batchSize cfg) w3 = Some (b, w4)
          \<and> saveSyncState (basePath cfg) (isoString P (startTime r)) w4 = (Inr (), w5)
          \<and> now w5 = (endTime r, w')
          \<and> processedEmails r = processed b \<and> failedEmails r = failed b
          \<and> skippedEmails r = skipped b \<and> failedEmailIds r = failedIds b)"
    using sync_try_Inr [OF t] by blast
  have "emails \<noteq> []" using ne tot by auto
  then obtain b w4 w5 where pb: "processBatch P (basePath cfg) emails (batchSize cfg) w3 = Some (b, w4)"
    and sv: "saveSyncState (basePath cfg) (isoString P (startTime r)) w4 = (Inr (), w5)"
    and f: "now w5 = (endTime r, w')"
    using c by auto
  have a0: "writes {} w w0" using now_writes [OF n0] .
  have a4: "writes {} w w4"
    using a0 loadSyncState_writes [OF l] sinceDate_writes [OF s] getEmailsSince_writes [OF g]
      processBatch_writes [OF pb] writes_quiet_trans by blast
  have a5: "writes {isoString P (startTime r)} w w5"
    using a4 saveSyncState_writes [OF sv] writes_quiet_trans by blast
  have a6: "writes {isoString P (startTime r)} w w'"
    using a5 now_writes [OF f] writes_trans_quiet by blast
  have start: "startTime r = clock w (ticks w)" using n0 by (auto simp: now_def)
  have "ticks w0 = Suc (ticks w)" using n0 by (auto simp: now_def)
  moreover have "ticks w0 \<le> ticks w5"
    using loadSyncState_writes [OF l] sinceDate_writes [OF s] getEmailsSince_writes [OF g]
      processBatch_writes [OF pb] saveSyncState_writes [OF sv]
    unfolding writes_def frame_def by linarith
  moreover have "endTime r = clock w5 (ticks w5) \<and> ticks w' = Suc (ticks w5)"
    using f by (auto simp: now_def)
  moreover have "clock w5 = clock w" using a5 by (simp add: writes_def frame_def)
  ultimately have finish: "endTime r = clock w (ticks w' - 1) \<and> ticks w < ticks w' - 1"
    by simp
  have safe: "set (marker_values (alf_nodes w')) \<subseteq>
      set (marker_values (alf_nodes w)) \<union> {isoString P (startTime r)}"
    using a6 by (simp add: writes_def)
  have live: "(\<forall>n \<ge> calls w. faults w n = None) \<and> srv_resolve (alf_nodes w) (basePath cfg) \<noteq> None
        \<longrightarrow> stored_marker (basePath cfg) (alf_nodes w') = Some (isoString P (startTime r))"
  proof (intro impI, elim conjE)
    assume nf: "\<forall>n \<ge> calls w. faults w n = None"
      and base: "srv_resolve (alf_nodes w) (basePath cfg) \<noteq> None"
    then obtain rootNode where "srv_resolve (alf_nodes w) (basePath cfg) = Some rootNode" by auto
    then obtain root4 where b4: "srv_resolve (alf_nodes w4) (basePath cfg) = Some root4"
      using grows_resolve [OF frame_grows [OF a4]] by blast
    have nf4: "\<forall>n \<ge> calls w4. faults w4 n = None" using frame_no_faults [OF a4 nf] .
    have "stored_marker (basePath cfg) (alf_nodes w5) = Some (isoString P (startTime r))"
      using save_stores [OF nf4 b4 sv] .
    moreover have "alf_nodes w' = alf_nodes w5" using f by (auto simp: now_def)
    ultimately show "stored_marker (basePath cfg) (alf_nodes w') = Some (isoString P (startTime r))"
      by simp
  qed
  show ?thesis using start finish safe live by blast
qed

theorem marker_is_start_instant_witness:
  "\<exists>r w'. sync test_platform test_config
      (test_world [mockEmail 1 ''6000'', mockEmail 2 ''6000'', mockEmail 3 ''100''] (\<lambda>_. None)) =
      Some (Inr r, w')
    \<and> totalEmails r = 2 \<and> startTime r = 5000 \<and> endTime r = 5030
    \<and> stored_marker ''/Test'' (alf_nodes w') = Some ''5000''"
proof -
  let ?w = "test_world [mockEmail 1 ''6000'', mockEmail 2 ''6000'', mockEmail 3 ''100''] (\<lambda>_. None)"
  obtain w' where run: "sync test_platform test_config ?w =
    Some (Inr \<lparr>totalEmails = 2, processedEmails = 1, failedEmails = 1, skippedEmails = 0,
                failedEmailIds = [2], startTime = 5000, endTime = 5030, duration = 30\<rparr>, w')"
    using test_run by blast
  have nf: "\<forall>n \<ge> calls ?w. faults ?w n = None" by (simp add: test_world_def)
  have base: "srv_resolve (alf_nodes ?w) (basePath test_config) \<noteq> None"
    by (simp add: eval_defs)
  have "stored_marker (basePath test_config) (alf_nodes w') = Some (isoString test_platform 5000)"
    using marker_is_start_instant [OF run] nf base by simp
  moreover have "isoString test_platform 5000 = ''5000''"
    by (simp add: eval_defs string_of_nat.simps)
  ultimately show ?thesis using run by (simp add: test_config_def)
qed

text \<open>
  C9. The save never raises, whatever the world. When a run has fetched a non-empty
  candidate list and processed the batch, and the save of the marker then fails, \<open>sync\<close>
  still returns a result, and its counters are those of the batch.
\<close>

theorem save_failure_is_swallowed:
  assumes "now w = (start, w0)"
    and "loadSyncState (basePath cfg) w0 = (st, w1)"
    and "sinceDate P cfg st w1 = (Inr since, w2)"
    and "getEmailsSince P since w2 = Some (Inr emails, w3)"
    and "emails \<noteq> []"
    and "processBatch P (basePath cfg) emails (batchSize cfg) w3 = Some (b, w4)"
    and "saveSyncState_try (basePath cfg) (isoString P start) w4 = (Inl e, w5)"
  shows "saveSyncState (basePath cfg) (isoString P start) w4 = (Inr (), w5)
    \<and> (\<exists>r w'. sync P cfg w = Some (Inr r, w')
          \<and> totalEmails r = length emails \<and> processedEmails r = processed b
          \<and> failedEmails r = failed b \<and> skippedEmails r = skipped b
          \<and> failedEmailIds r = failedIds b)
    \<and> (\<forall>base ts v. fst (saveSyncState base ts v) = Inr ())"
proof -
  have sv: "saveSyncState (basePath cfg) (isoString P start) w4 = (Inr (), w5)"
    using assms(7) by (simp add: saveSyncState_def)
  obtain finish w6 where f: "now w5 = (finish, w6)" by (cases "now w5")
  have "sync_try P cfg start w0 =
      Some (Inr \<lparr>totalEmails = length emails, processedEmails = processed b,
                  failedEmails = failed b, skippedEmails = skipped b,
                  failedEmailIds = failedIds b, startTime = start, endTime = finish,
                  duration = finish - start\<rparr>, w6)"
    using assms(2-6) sv f by (simp add: sync_try_def toISOString_def)
  then have run: "\<exists>r w'. sync P cfg w = Some (Inr r, w')
          \<and> totalEmails r = length emails \<and> processedEmails r = processed b
          \<and> failedEmails r = failed b \<and> skippedEmails r = skipped b
          \<and> failedEmailIds r = failedIds b"
    using assms(1) by (simp add: sync_def)
  have never: "\<forall>base ts v. fst (saveSyncState base ts v) = Inr ()"
    by (auto simp: saveSyncState_def split: prod.splits sum.splits)
  show ?thesis using sv run never by blast
qed

lemma test_save_failure:
  "\<exists>start w0 st w1 since w2 emails w3 b w4 w5.
     now (test_world [mockEmail 2 ''6000'']
        (\<lambda>n. if n = 4 then Some (Error ''Failed to save state'') else None)) = (start, w0)
   \<and> loadSyncState (basePath test_config) w0 = (st, w1)
   \<and> sinceDate test_platform test_config st w1 = (Inr since, w2)
   \<and> getEmailsSince test_platform since w2 = Some (Inr emails, w3)
   \<and> emails \<noteq> []
   \<and> processBatch test_platform (basePath test_config) emails (batchSize test_config) w3 = Some (b, w4)
   \<and> saveSyncState_try (basePath test_config) (isoString test_platform start) w4 =
        (Inl (Error ''Failed to save state''), w5)
   \<and> length emails = 1 \<and> failed b = 1 \<and> processed b = 0"
  by (simp add: eval_defs)

theorem save_failure_is_swallowed_witness:
  "\<exists>r w'. sync test_platform test_config
      (test_world [mockEmail 2 ''6000'']
        (\<lambda>n. if n = 4 then Some (Error ''Failed to save state'') else None)) = Some (Inr r, w')
    \<and> totalEmails r = 1 \<and> failedEmails r = 1 \<and> processedEmails r = 0"
proof -
  obtain start w0 st w1 since w2 emails w3 b w4 w5 where
    h: "now (test_world [mockEmail 2 ''6000'']
        (\<lambda>n. if n = 4 then Some (Error ''Failed to save state'') else None)) = (start, w0)"
      "loadSyncState (basePath test_config) w0 = (st, w1)"
      "sinceDate test_platform test_config st w1 = (Inr since, w2)"
      "getEmailsSince test_platform since w2 = Some (Inr emails, w3)"
      "emails \<noteq> []"
      "processBatch test_platform (basePath test_config) emails (batchSize test_config) w3 = Some (b, w4)"
      "saveSyncState_try (basePath test_config) (isoString test_platform start) w4 =
        (Inl (Error ''Failed to save state''), w5)"
    and v: "length emails = 1" "failed b = 1" "processed b = 0"
    using test_save_failure by blast
  show ?thesis
    using save_failure_is_swallowed [OF h] v by auto
qed

section \<open>The candidate fetch\<close>

lemma recentEmails_append:
  "recentEmails P since (xs @ ys) = recentEmails P since xs @ recentEmails P since ys"
  by (simp add: recentEmails_def)

lemma getEmails_Inr:
  "getEmails off mx w = (Inr resp, w1) \<Longrightarrow>
     faults w (calls w) = None \<and> w1 = w\<lparr>calls := Suc (calls w)\<rparr> \<and> resp = mkto_emails w off mx"
  by (auto simp: getEmails_def transport_def split: option.splits)

lemma getEmailsSince_loop_Inr:
  assumes "getEmailsSince_loop P since off acc w = Some y"
  shows "fetch_post P since off acc w y"
  using assms
  apply (rule getEmailsSince_loop.raw_induct
      [where Pa = "\<lambda>((((P, since), off), acc), w) y. fetch_post P since off acc w y",
        simplified, rotated])
  subgoal premises p for f P since off acc w y
  unfolding fetch_post_def
  proof (intro allI impI)
    fix es w'
    assume y: "y = (Inr es, w')"
    obtain g w1 where g: "getEmails off 200 w = (g, w1)" by (cases "getEmails off 200 w")
    obtain resp where gr: "g = Inr resp"
      using p(2) g y by (cases g) auto
    have w1: "w1 = w\<lparr>calls := Suc (calls w)\<rparr>" and resp: "resp = mkto_emails w off 200"
      using getEmails_Inr [OF g [unfolded gr]] by simp_all
    have body: "(if \<not> success resp then Some (Inr acc, w1)
          else (case result resp of
                  None \<Rightarrow> Some (Inr acc, w1)
                | Some rs \<Rightarrow>
                    if moreResult resp = Some True
                    then f P since (off + 200) (acc @ recentEmails P since rs) w1
                    else Some (Inr (acc @ recentEmails P since rs), w1))) = Some y"
      using p(2) g gr by simp
    let ?goal = "\<exists>n>0. w' = w\<lparr>calls := calls w + n\<rparr>
         \<and> (\<forall>j<n - 1. continues (mkto_emails w (off + 200 * j) 200))
         \<and> \<not> continues (mkto_emails w (off + 200 * (n - 1)) 200)
         \<and> es = acc @ recentEmails P since
              (concat (map (\<lambda>j. page_items (mkto_emails w (off + 200 * j) 200)) [0..<n]))"
    show ?goal
    proof (cases "continues resp")
      case False
      have "w' = w1 \<and> es = acc @ recentEmails P since (page_items resp)"
      proof (cases "success resp")
        case False
        then show ?thesis using body y by (simp add: page_items_def recentEmails_def)
      next
        case ok: True
        show ?thesis
        proof (cases "result resp")
          case None
          then show ?thesis using body y ok by (simp add: page_items_def recentEmails_def)
        next
          case (Some rs)
          then have "moreResult resp \<noteq> Some True" using False ok by (simp add: continues_def)
          then show ?thesis using body y ok Some by (simp add: page_items_def)
        qed
      qed
      then have "0 < (1::nat) \<and> w' = w\<lparr>calls := calls w + 1\<rparr>
         \<and> (\<forall>j<1 - 1. continues (mkto_emails w (off + 200 * j) 200))
         \<and> \<not> continues (mkto_emails w (off + 200 * (1 - 1)) 200)
         \<and> es = acc @ recentEmails P since
              (concat (map (\<lambda>j. page_items (mkto_emails w (off + 200 * j) 200)) [0..<1]))"
        using False w1 resp by simp
      then show ?thesis by (rule exI [of _ 1])
    next
      case True
      then obtain rs where rs: "result resp = Some rs" and ok: "success resp"
        and more: "moreResult resp = Some True"
        by (auto simp: continues_def)
      have items: "page_items resp = rs" using rs ok by (simp add: page_items_def)
      have "f P since (off + 200) (acc @ recentEmails P since rs) w1 = Some y"
        using body rs ok more by simp
      then obtain n where n: "n > 0" "w' = w1\<lparr>calls := calls w1 + n\<rparr>"
        "\<forall>j<n - 1. continues (mkto_emails w1 (off + 200 + 200 * j) 200)"
        "\<not> continues (mkto_emails w1 (off + 200 + 200 * (n - 1)) 200)"
        "es = (acc @ recentEmails P since rs) @ recentEmails P since
              (concat (map (\<lambda>j. page_items (mkto_emails w1 (off + 200 + 200 * j) 200)) [0..<n]))"
        using p(1) y unfolding fetch_post_def by blast
      have m: "mkto_emails w1 = mkto_emails w" using w1 by simp
      have a: "w' = w\<lparr>calls := calls w + Suc n\<rparr>" using n(2) w1 by simp
      have b: "\<forall>j<Suc n - 1. continues (mkto_emails w (off + 200 * j) 200)"
      proof (intro allI impI)
        fix j assume j: "j < Suc n - 1"
        show "continues (mkto_emails w (off + 200 * j) 200)"
        proof (cases j)
          case 0
          then show ?thesis using True resp by simp
        next
          case (Suc i)
          then have "i < n - 1" using j by simp
          then show ?thesis using n(3) m Suc by (simp add: add.assoc)
        qed
      qed
      have c: "\<not> continues (mkto_emails w (off + 200 * (Suc n - 1)) 200)"
      proof -
        have "off + 200 + 200 * (n - 1) = off + 200 * (Suc n - 1)" using n(1) by (cases n) simp_all
        then show ?thesis using n(4) m by metis
      qed
      have "map (\<lambda>j. page_items (mkto_emails w (off + 200 * j) 200)) [0..<Suc n] =
          page_items (mkto_emails w off 200) #
          map (\<lambda>j. page_items (mkto_emails w (off + 200 + 200 * j) 200)) [0..<n]"
        by (subst map_upt_Suc) (simp add: add.assoc)
      then have d: "es = acc @ recentEmails P since
              (concat (map (\<lambda>j. page_items (mkto_emails w (off + 200 * j) 200)) [0..<Suc n]))"
        using n(5) m items resp by (simp add: recentEmails_append)
      have "0 < Suc n \<and> w' = w\<lparr>calls := calls w + Suc n\<rparr>
         \<and> (\<forall>j<Suc n - 1. continues (mkto_emails w (off + 200 * j) 200))
         \<and> \<not> continues (mkto_emails w (off + 200 * (Suc n - 1)) 200)
         \<and> es = acc @ recentEmails P since
              (concat (map (\<lambda>j. page_items (mkto_emails w (off + 200 * j) 200)) [0..<Suc n]))"
        using a b c d by blast
      then show ?thesis by (rule exI [of _ "Suc n"])
    qed
  qed
  done

lemma getEmailsSince_Inr:
  assumes "getEmailsSince P since w = Some (Inr es, w')"
  shows "\<exists>n>0. since \<noteq> None \<and> w' = w\<lparr>calls := calls w + n\<rparr>
      \<and> (\<forall>j<n - 1. continues (page w j)) \<and> \<not> continues (page w (n - 1))
      \<and> es = recentEmails P since (fetched w n)"
proof -
  have s: "since \<noteq> None"
    using assms by (auto simp: getEmailsSince_def toISOString_def split: option.splits)
  then have "getEmailsSince_loop P since 0 [] w = Some (Inr es, w')"
    using assms by (auto simp: getEmailsSince_def toISOString_def split: option.splits)
  then show ?thesis
    using getEmailsSince_loop_Inr [of P since 0 "[]" w "(Inr es, w')"] s
    by (simp add: page_def fetched_def fetch_post_def)
qed

lemma getEmailsSince_loop_returns:
  "\<not> continues (mkto_emails w (off + 200 * d) 200) \<Longrightarrow>
     getEmailsSince_loop P since off acc w \<noteq> None"
proof (induction d arbitrary: off acc w)
  case 0
  then show ?case
    by (subst getEmailsSince_loop.simps)
      (auto simp: getEmails_def transport_def continues_def split: option.splits)
next
  case (Suc d)
  let ?w1 = "w\<lparr>calls := Suc (calls w)\<rparr>"
  have "\<not> continues (mkto_emails ?w1 (off + 200 + 200 * d) 200)"
    using Suc.prems by (simp add: add.assoc)
  then have "getEmailsSince_loop P since (off + 200)
      (acc @ recentEmails P since (page_items (mkto_emails w off 200))) ?w1 \<noteq> None"
    by (rule Suc.IH)
  then show ?case
    by (subst getEmailsSince_loop.simps)
      (auto simp: getEmails_def transport_def page_items_def split: option.splits)
qed

lemma getEmailsSince_returns:
  "\<not> continues (page w j) \<Longrightarrow> getEmailsSince P since w \<noteq> None"
  using getEmailsSince_loop_returns [of w 0 j P since "[]"]
  by (auto simp: getEmailsSince_def page_def split: sum.splits)


section \<open>Properties of the change set\<close>




text \<open>
  C7, as the code has it. The fetch loop requests the pages at offsets 0, 200, 400 and
  so on and stops at the first page that is unsuccessful, has no result list or does
  not carry \<open>moreResult = true\<close>. It returns whenever such a page exists. When it returns
  a list after n requests, each of the first n - 1 pages was successful, had a result
  list and announced more results, the n-th page did not, and the list holds the items
  of those n pages that are at or after the bound.
\<close>

theorem pagination_drain:
  "((\<exists>j. \<not> continues (page w j)) \<longrightarrow> getEmailsSince P since w \<noteq> None)
   \<and> (getEmailsSince P since w = Some (Inr es, w') \<longrightarrow>
        (\<exists>n>0. calls w' = calls w + n
           \<and> (\<forall>j<n - 1. continues (page w j)) \<and> \<not> continues (page w (n - 1))
           \<and> es = recentEmails P since (fetched w n)))"
proof -
  have a: "(\<exists>j. \<not> continues (page w j)) \<longrightarrow> getEmailsSince P since w \<noteq> None"
    using getEmailsSince_returns by blast
  have b: "getEmailsSince P since w = Some (Inr es, w') \<longrightarrow>
        (\<exists>n>0. calls w' = calls w + n
           \<and> (\<forall>j<n - 1. continues (page w j)) \<and> \<not> continues (page w (n - 1))
           \<and> es = recentEmails P since (fetched w n))"
  proof
    assume "getEmailsSince P since w = Some (Inr es, w')"
    then obtain n where "n > 0" "w' = w\<lparr>calls := calls w + n\<rparr>"
      "\<forall>j<n - 1. continues (page w j)" "\<not> continues (page w (n - 1))"
      "es = recentEmails P since (fetched w n)"
      using getEmailsSince_Inr by blast
    then have "0 < n \<and> calls w' = calls w + n
           \<and> (\<forall>j<n - 1. continues (page w j)) \<and> \<not> continues (page w (n - 1))
           \<and> es = recentEmails P since (fetched w n)"
      by simp
    then show "\<exists>n>0. calls w' = calls w + n
           \<and> (\<forall>j<n - 1. continues (page w j)) \<and> \<not> continues (page w (n - 1))
           \<and> es = recentEmails P since (fetched w n)"
      by (rule exI [of _ n])
  qed
  show ?thesis using a b by blast
qed

theorem pagination_drain_witness:
  "\<not> continues (page (test_world [mockEmail 1 ''6000''] (\<lambda>_. None)) 0)
   \<and> getEmailsSince test_platform (Some 6000) (test_world [mockEmail 1 ''6000''] (\<lambda>_. None)) \<noteq> None"
proof -
  have s: "\<not> continues (page (test_world [mockEmail 1 ''6000''] (\<lambda>_. None)) 0)"
    by (simp add: continues_def page_def test_world_def)
  then have "\<exists>j. \<not> continues (page (test_world [mockEmail 1 ''6000''] (\<lambda>_. None)) j)"
    by (rule exI)
  then show ?thesis
    using pagination_drain [of "test_world [mockEmail 1 ''6000''] (\<lambda>_. None)" test_platform "Some 6000"] s
    by blast
qed

text \<open>
  C7, as stated, fails: the first page of this source announces more results, yet the
  loop stops after that one request because the page is unsuccessful, and the item of
  the second page, which lies in the window, is never fetched.
\<close>

theorem pagination_drain_counterexample:
  "moreResult (page stalled_world 0) = Some True
   \<and> getEmailsSince test_platform (Some 0) stalled_world =
       Some (Inr [], stalled_world\<lparr>calls := 1\<rparr>)
   \<and> recentEmails test_platform (Some 0) (page_items (page stalled_world 1)) =
       [mockEmail 1 ''6000'']"
  by (simp add: eval_defs stalled_world_def page_def page_items_def)


section \<open>Folders and files that are already there\<close>

lemma split_parts_free: "p \<in> set (split sep s) \<Longrightarrow> sep \<notin> set p"
proof (induction s arbitrary: p)
  case Nil
  then show ?case by simp
next
  case (Cons c s)
  obtain q qs where q: "split sep s = q # qs"
    using split_nonempty [of sep s] by (cases "split sep s") auto
  show ?case
  proof (cases "c = sep")
    case True
    then show ?thesis using Cons by auto
  next
    case False
    then have "p = c # q \<or> p \<in> set qs" using Cons.prems q by simp
    then show ?thesis using Cons.IH [of q] Cons.IH [of p] q False by auto
  qed
qed

lemma pathParts_parts: "p \<in> set (pathParts s) \<Longrightarrow> p \<noteq> [] \<and> CHR ''/'' \<notin> set p"
  using split_parts_free [of p "CHR ''/''" s] by (simp add: pathParts_def)

lemma pathParts_step:
  assumes "part \<noteq> [] \<and> CHR ''/'' \<notin> set part"
  shows "pathParts (cur @ CHR ''/'' # part) = pathParts cur @ [part]"
proof -
  have "pathParts (cur @ ''/'' @ part) = pathParts cur @ pathParts part"
    by (rule pathParts_append)
  moreover have "pathParts part = [part]" using assms by (simp add: pathParts_segment)
  ultimately show ?thesis by simp
qed

lemma srv_walk_append:
  "srv_walk ns cur (xs @ ys) =
     (case srv_walk ns cur xs of None \<Rightarrow> None | Some m \<Rightarrow> srv_walk ns m ys)"
  by (induction xs arbitrary: cur) (auto split: option.splits)

lemma getNodeByPath_Some:
  "getNodeByPath path w = (Inr (Some n), w') \<Longrightarrow>
     srv_resolve (alf_nodes w) path = Some n \<and> alf_nodes w' = alf_nodes w"
  by (auto simp: getNodeByPath_def transport_def split: option.splits if_splits)

lemma getNodeByPath_nodes: "getNodeByPath path w = (r, w') \<Longrightarrow> alf_nodes w' = alf_nodes w"
  by (auto simp: getNodeByPath_def transport_def split: option.splits if_splits)

lemma getNodeByPath_ok:
  "\<forall>n \<ge> calls w. faults w n = None \<Longrightarrow>
     getNodeByPath path w = (Inr (srv_resolve (alf_nodes w) path), w\<lparr>calls := Suc (calls w)\<rparr>)"
  by (simp add: getNodeByPath_def transport_def)

lemma createFolder_Inr:
  assumes "createFolder parent nm w = (Inr n, w')"
  shows "alf_nodes w' = alf_nodes w @ [n] \<and> parentId n = Some parent \<and> node_name n = nm
    \<and> srv_child (alf_nodes w) parent nm = None"
  using assms
  by (auto simp: createFolder_def transport_def srv_create_def Let_def
      split: option.splits sum.splits if_splits)

lemma srv_child_new:
  assumes "srv_child ns pid nm = None" and "parentId n = Some pid" and "node_name n = nm"
  shows "srv_child (ns @ [n]) pid nm = Some n"
  using assms unfolding srv_child_find by (induction ns) (auto split: if_splits)

text \<open>
  A folder path that the repository already holds is found without creating anything,
  when no request fails.
\<close>

lemma ensureFolderPath_loop_existing:
  assumes "\<forall>n \<ge> calls w. faults w n = None"
    and "srv_walk (alf_nodes w) root_node (pathParts cur @ parts) = Some F"
    and "\<forall>p \<in> set parts. p \<noteq> [] \<and> CHR ''/'' \<notin> set p"
    and "srv_walk (alf_nodes w) root_node (pathParts cur) = Some node"
  shows "ensureFolderPath_loop parts cur node w = (Inr F, w\<lparr>calls := calls w + length parts\<rparr>)"
  using assms
proof (induction parts arbitrary: cur node w)
  case Nil
  then show ?case by simp
next
  case (Cons part rest)
  let ?cur = "cur @ CHR ''/'' # part"
  let ?w1 = "w\<lparr>calls := Suc (calls w)\<rparr>"
  have pp: "pathParts ?cur = pathParts cur @ [part]"
    using Cons.prems(3) pathParts_step [of part cur] by simp
  obtain m where m: "srv_walk (alf_nodes w) root_node (pathParts cur @ [part]) = Some m"
    and rest: "srv_walk (alf_nodes w) m rest = Some F"
    using Cons.prems(2) srv_walk_append [of "alf_nodes w" root_node "pathParts cur @ [part]" rest]
    by (auto split: option.splits)
  have g: "getNodeByPath ?cur w = (Inr (Some m), ?w1)"
    using getNodeByPath_ok [OF Cons.prems(1), of ?cur] m by (simp add: srv_resolve_def pp)
  have full: "srv_walk (alf_nodes ?w1) root_node (pathParts ?cur @ rest) = Some F"
    using Cons.prems(2) by (simp add: pp)
  have "ensureFolderPath_loop rest ?cur m ?w1 = (Inr F, ?w1\<lparr>calls := calls ?w1 + length rest\<rparr>)"
    using Cons.IH [of ?w1 ?cur m] Cons.prems(1,3) full m by (simp add: pp)
  then show ?case using g by simp
qed

lemma ensureFolderPath_existing:
  assumes nf: "\<forall>n \<ge> calls w. faults w n = None"
    and f: "folder_of (alf_nodes w) base path = Some F"
  shows "ensureFolderPath base path w =
      (Inr F, w\<lparr>calls := calls w + Suc (length (pathParts path))\<rparr>)"
proof -
  let ?w1 = "w\<lparr>calls := Suc (calls w)\<rparr>"
  obtain b where b: "srv_walk (alf_nodes w) root_node (pathParts base) = Some b"
    using f srv_walk_append [of "alf_nodes w" root_node "pathParts base" "pathParts path"]
    by (auto simp: folder_of_def split: option.splits)
  have g: "getNodeByPath base w = (Inr (Some b), ?w1)"
    using getNodeByPath_ok [OF nf, of base] b by (simp add: srv_resolve_def)
  have "ensureFolderPath_loop (pathParts path) base b ?w1 =
      (Inr F, ?w1\<lparr>calls := calls ?w1 + length (pathParts path)\<rparr>)"
    using ensureFolderPath_loop_existing [of ?w1 base "pathParts path" F b]
      nf f b pathParts_parts by (simp add: folder_of_def)
  then show ?thesis using g by (simp add: ensureFolderPath_def)
qed

text \<open>A folder path that was ensured is held by the repository afterwards.\<close>

lemma ensureFolderPath_loop_Inr:
  assumes "ensureFolderPath_loop parts cur node w = (Inr F, w')"
    and "srv_walk (alf_nodes w) root_node (pathParts cur) = Some c"
    and "node_id c = node_id node"
    and "\<forall>p \<in> set parts. p \<noteq> [] \<and> CHR ''/'' \<notin> set p"
  shows "\<exists>F'. srv_walk (alf_nodes w') root_node (pathParts cur @ parts) = Some F'
    \<and> node_id F' = node_id F"
  using assms
proof (induction parts arbitrary: cur node w c)
  case Nil
  then show ?case by simp
next
  case (Cons part rest)
  let ?cur = "cur @ CHR ''/'' # part"
  have pp: "pathParts ?cur = pathParts cur @ [part]"
    using Cons.prems(4) pathParts_step [of part cur] by simp
  have rest: "\<forall>p \<in> set rest. p \<noteq> [] \<and> CHR ''/'' \<notin> set p" using Cons.prems(4) by simp
  obtain g w1 where g: "getNodeByPath ?cur w = (g, w1)" by (cases "getNodeByPath ?cur w")
  have n1: "alf_nodes w1 = alf_nodes w" using getNodeByPath_nodes [OF g] .
  show ?case
  proof (cases g)
    case (Inl e)
    then show ?thesis using Cons.prems(1) g by simp
  next
    case (Inr found)
    show ?thesis
    proof (cases found)
      case (Some n)
      then have r: "srv_walk (alf_nodes w1) root_node (pathParts ?cur) = Some n"
        using getNodeByPath_Some [of ?cur w n w1] g Inr n1 by (simp add: srv_resolve_def)
      have l: "ensureFolderPath_loop rest ?cur n w1 = (Inr F, w')"
        using Cons.prems(1) g Inr Some by simp
      show ?thesis using Cons.IH [OF l r _ rest] by (simp add: pp)
    next
      case None
      obtain k w2 where k: "createFolder (node_id node) part w1 = (k, w2)"
        by (cases "createFolder (node_id node) part w1")
      show ?thesis
      proof (cases k)
        case (Inl e)
        then show ?thesis using Cons.prems(1) g Inr None k by simp
      next
        case new: (Inr n)
        note cr = createFolder_Inr [OF k [unfolded new]]
        have ns2: "alf_nodes w2 = alf_nodes w @ [n]" using cr n1 by simp
        have "grows (alf_nodes w) (alf_nodes w2)" unfolding ns2 by (simp add: grows_def)
        then obtain c2 where c2: "srv_walk (alf_nodes w2) root_node (pathParts cur) = Some c2"
          and i2: "node_id c2 = node_id c"
          using grows_walk [OF _ Cons.prems(2), of "alf_nodes w2" root_node] by auto
        have "srv_child (alf_nodes w2) (node_id c2) part = Some n"
          unfolding ns2 using srv_child_new [of "alf_nodes w" "node_id node" part n] cr n1 i2
            Cons.prems(3) by simp
        then have r: "srv_walk (alf_nodes w2) root_node (pathParts ?cur) = Some n"
          unfolding pp by (simp add: srv_walk_append c2)
        have l: "ensureFolderPath_loop rest ?cur n w2 = (Inr F, w')"
          using Cons.prems(1) g Inr None k new by simp
        show ?thesis using Cons.IH [OF l r _ rest] by (simp add: pp)
      qed
    qed
  qed
qed

lemma ensureFolderPath_Inr:
  assumes "ensureFolderPath base path w = (Inr F, w')"
  shows "\<exists>F'. folder_of (alf_nodes w') base path = Some F' \<and> node_id F' = node_id F"
proof -
  obtain g w1 where g: "getNodeByPath base w = (g, w1)" by (cases "getNodeByPath base w")
  obtain b where gb: "g = Inr (Some b)"
    using assms g by (auto simp: ensureFolderPath_def split: sum.splits option.splits)
  have r: "srv_walk (alf_nodes w1) root_node (pathParts base) = Some b"
    using getNodeByPath_Some [of base w b w1] g gb by (simp add: srv_resolve_def)
  have l: "ensureFolderPath_loop (pathParts path) base b w1 = (Inr F, w')"
    using assms g gb by (simp add: ensureFolderPath_def)
  show ?thesis
    unfolding folder_of_def
    using ensureFolderPath_loop_Inr [OF l r] pathParts_parts by blast
qed


section \<open>Candidates that are already archived\<close>

lemma nodeExists_nodes: "nodeExists parent nm w = (r, w') \<Longrightarrow> alf_nodes w' = alf_nodes w"
  by (auto simp: nodeExists_def transport_def split: option.splits list.splits)

lemma nodeExists_Some:
  "nodeExists parent nm w = (Some n, w') \<Longrightarrow> srv_child (alf_nodes w) parent nm = Some n"
  by (auto simp: nodeExists_def transport_def srv_child_def split: option.splits list.splits)

lemma nodeExists_ok:
  "\<forall>n \<ge> calls w. faults w n = None \<Longrightarrow>
     nodeExists parent nm w = (srv_child (alf_nodes w) parent nm, w\<lparr>calls := Suc (calls w)\<rparr>)"
  by (simp add: nodeExists_def transport_def srv_child_def split: list.splits)

lemma getRootNodeId_nodes: "getRootNodeId base w = (r, w') \<Longrightarrow> alf_nodes w' = alf_nodes w"
  by (auto simp: getRootNodeId_def split: prod.splits sum.splits option.splits
      dest: getNodeByPath_nodes)

lemma loadSyncState_nodes: "loadSyncState base w = (st, w') \<Longrightarrow> alf_nodes w' = alf_nodes w"
proof -
  assume a: "loadSyncState base w = (st, w')"
  obtain g w1 where g: "getRootNodeId base w = (g, w1)" by (cases "getRootNodeId base w")
  note n1 = getRootNodeId_nodes [OF g]
  show ?thesis
  proof (cases g)
    case (Inl e)
    then have "w' = w1" using a g by (simp add: loadSyncState_def loadSyncState_try_def)
    then show ?thesis using n1 by simp
  next
    case (Inr rootNode)
    obtain n w2 where n: "nodeExists rootNode ''.sync-state.json'' w1 = (n, w2)"
      by (cases "nodeExists rootNode ''.sync-state.json'' w1")
    have "w' = w2"
      using a g Inr n
      by (auto simp: loadSyncState_def loadSyncState_try_def split: option.splits if_splits)
    then show ?thesis using n1 nodeExists_nodes [OF n] by simp
  qed
qed

lemma sinceDate_nodes: "sinceDate P cfg st w = (r, w') \<Longrightarrow> alf_nodes w' = alf_nodes w"
  by (auto simp: sinceDate_def getDaysAgo_def now_def
      split: if_splits option.splits sum.splits prod.splits)

lemma now_nodes: "now w = (t, w') \<Longrightarrow> alf_nodes w' = alf_nodes w"
  by (auto simp: now_def)

lemma getEmailsSince_nodes:
  "getEmailsSince P since w = Some (Inr es, w') \<Longrightarrow> alf_nodes w' = alf_nodes w"
  using getEmailsSince_Inr [of P since w es w'] by auto

lemma uploadFile_Inr:
  assumes "uploadFile parent nm content props w = (Inr n, w')"
  shows "alf_nodes w' = alf_nodes w @ [n] \<and> parentId n = Some parent \<and> node_name n = nm
    \<and> srv_child (alf_nodes w) parent nm = None"
  using assms
  by (auto simp: uploadFile_def transport_def srv_create_def Let_def
      split: option.splits sum.splits if_splits)

lemma uploadFile_nodes:
  assumes "uploadFile parent nm content props w = (r, w')"
  shows "alf_nodes w' = alf_nodes w \<or> (\<exists>n. alf_nodes w' = alf_nodes w @ [n] \<and> node_name n = nm)"
proof (cases r)
  case (Inl e)
  then show ?thesis
    using assms
    by (auto simp: uploadFile_def transport_def split: option.splits sum.splits)
next
  case (Inr n)
  then show ?thesis using uploadFile_Inr [of parent nm content props w n w'] assms by auto
qed

lemma updateNodeProperties_idents:
  assumes "updateNodeProperties nid props w = (r, w')"
  shows "map ident (alf_nodes w') = map ident (alf_nodes w)"
proof (cases "\<exists>n ns. faults w (calls w) = None \<and> srv_update (alf_nodes w) nid props = Inr (n, ns)")
  case False
  then have "alf_nodes w' = alf_nodes w"
    using assms
    by (auto simp: updateNodeProperties_def transport_def split: option.splits sum.splits)
  then show ?thesis by simp
next
  case True
  then obtain n ns where u: "srv_update (alf_nodes w) nid props = Inr (n, ns)"
    and f: "faults w (calls w) = None" by blast
  have "alf_nodes w' = ns"
    using assms u f by (auto simp: updateNodeProperties_def transport_def)
  then show ?thesis using srv_update_ident [OF u] by simp
qed

lemma archive_idents_marker:
  "node_name n = ''.sync-state.json'' \<Longrightarrow> archive_idents (ns @ [n]) = archive_idents ns"
  by (simp add: archive_idents_def ident_def)

lemma saveSyncState_idents:
  assumes "saveSyncState base ts w = (r, w')"
  shows "archive_idents (alf_nodes w') = archive_idents (alf_nodes w)"
proof -
  obtain g w1 where g: "getRootNodeId base w = (g, w1)" by (cases "getRootNodeId base w")
  note n1 = getRootNodeId_nodes [OF g]
  show ?thesis
  proof (cases g)
    case (Inl e)
    then have "w' = w1"
      using assms g by (auto simp: saveSyncState_def saveSyncState_try_def)
    then show ?thesis using n1 by simp
  next
    case (Inr rootNode)
    obtain n w2 where n: "nodeExists rootNode ''.sync-state.json'' w1 = (n, w2)"
      by (cases "nodeExists rootNode ''.sync-state.json'' w1")
    have n2: "alf_nodes w2 = alf_nodes w" using nodeExists_nodes [OF n] n1 by simp
    show ?thesis
    proof (cases n)
      case None
      obtain u w3 where u: "uploadFile rootNode ''.sync-state.json'' (StateJson ts)
          [(''mkto:lastSyncTimestamp'', ts)] w2 = (u, w3)"
        by (cases "uploadFile rootNode ''.sync-state.json'' (StateJson ts)
          [(''mkto:lastSyncTimestamp'', ts)] w2")
      have "w' = w3"
        using assms g Inr n None u
        by (auto simp: saveSyncState_def saveSyncState_try_def split: sum.splits)
      then show ?thesis
        using uploadFile_nodes [OF u] n2 archive_idents_marker by auto
    next
      case (Some stateNode)
      obtain u w3 where u: "updateNodeProperties (node_id stateNode)
          [(''mkto:lastSyncTimestamp'', ts)] w2 = (u, w3)"
        by (cases "updateNodeProperties (node_id stateNode) [(''mkto:lastSyncTimestamp'', ts)] w2")
      have "w' = w3"
        using assms g Inr n Some u
        by (auto simp: saveSyncState_def saveSyncState_try_def split: sum.splits)
      then show ?thesis
        using updateNodeProperties_idents [OF u] n2 by (simp add: archive_idents_def)
    qed
  qed
qed

lemma saveSyncState_never_raises: "fst (saveSyncState base ts w) = Inr ()"
  by (auto simp: saveSyncState_def split: prod.splits sum.splits)

lemma getEmailContent_Some:
  assumes "getEmailContent i w = (Some content, w')"
  shows "\<exists>item. first_result (mkto_content w i) = Some item
    \<and> htmlContent content = item_htmlContent item"
  using assms
  by (auto simp: getEmailContent_def transport_def getEmailById_def
      split: option.splits sum.splits prod.splits)

lemma getEmailContent_ok:
  assumes "\<forall>n \<ge> calls w. faults w n = None"
    and "first_result (mkto_content w i) = Some item"
  shows "\<exists>content. getEmailContent i w = (Some content, w\<lparr>calls := Suc (Suc (calls w))\<rparr>)
    \<and> htmlContent content = item_htmlContent item"
  using assms
  by (simp add: getEmailContent_def transport_def getEmailById_def)

lemma archived_world:
  "mkto_content w' = mkto_content w \<Longrightarrow> alf_nodes w' = alf_nodes w \<Longrightarrow>
     archived P base w' email = archived P base w email"
  by (simp add: archived_def)

lemma archived_grows:
  assumes "archived P base w email" and "writes V w w'"
  shows "archived P base w' email"
proof -
  have g: "grows (alf_nodes w) (alf_nodes w')" using frame_grows [OF assms(2)] .
  have m: "mkto_content w' = mkto_content w" using assms(2) by (simp add: writes_def frame_def)
  obtain item year month F k where
    i: "first_result (mkto_content w (email_id email)) = Some item" "truthy (item_htmlContent item)"
    and t: "toPathFormat P (new_Date P (createdAt email)) = Inr (year, month)"
    and f: "folder_of (alf_nodes w) base (folderPath year month email) = Some F"
    and c: "srv_child (alf_nodes w) (node_id F) (emailFileName P email) = Some k"
    using assms(1) by (auto simp: archived_def)
  obtain F' where f': "folder_of (alf_nodes w') base (folderPath year month email) = Some F'"
    and id: "node_id F' = node_id F"
    using grows_walk [OF g f [unfolded folder_of_def], of root_node] by (auto simp: folder_of_def)
  obtain k' where "srv_child (alf_nodes w') (node_id F) (emailFileName P email) = Some k'"
    using grows_child [OF g c] by blast
  then show ?thesis
    unfolding archived_def using i t f' id m by auto
qed

lemma uploadEmail_Inr:
  assumes "uploadEmail P email content html F w = (Inr r, w')"
  shows "srv_child (alf_nodes w') (node_id F) (emailFileName P email) \<noteq> None"
proof -
  obtain t w1 where t: "now w = (t, w1)" by (cases "now w")
  obtain u w2 where u: "uploadFile (node_id F) (emailFileName P email) (Html html)
      (metadata P email content (isoString P t)) w1 = (u, w2)"
    by (cases "uploadFile (node_id F) (emailFileName P email) (Html html)
      (metadata P email content (isoString P t)) w1")
  obtain htmlNode where h: "u = Inr htmlNode"
    using assms t u by (cases u) (auto simp: uploadEmail_def toISOString_def)
  obtain v w3 where v: "uploadFile (node_id F) (metadataFileName P email)
        (MetadataJson email (content_subject content) (content_fromName content)
           (content_fromEmail content))
        [(''mkto:emailId'', string_of_int P (email_id email)),
         (''mkto:emailName'', email_name email)] w2 = (v, w3)"
    by (cases "uploadFile (node_id F) (metadataFileName P email)
        (MetadataJson email (content_subject content) (content_fromName content)
           (content_fromEmail content))
        [(''mkto:emailId'', string_of_int P (email_id email)),
         (''mkto:emailName'', email_name email)] w2")
  have w': "w' = w3"
    using assms t u h v by (auto simp: uploadEmail_def toISOString_def split: sum.splits)
  note up = uploadFile_Inr [OF u [unfolded h]]
  have "srv_child (alf_nodes w2) (node_id F) (emailFileName P email) = Some htmlNode"
    using srv_child_new [of "alf_nodes w1" "node_id F" "emailFileName P email" htmlNode] up by simp
  moreover have "grows (alf_nodes w2) (alf_nodes w3)"
    using frame_grows [OF uploadFile_writes [OF v]] .
  ultimately show ?thesis unfolding w' using grows_child by fastforce
qed

text \<open>A candidate that was materialized with success is archived afterwards.\<close>

lemma processEmail_archives:
  assumes "processEmail P base email w = (r, w')" and "pr_success r"
  shows "archived P base w' email"
proof -
  have tr: "processEmail_try P base email w = (Inr r, w')"
    using assms by (auto simp: processEmail_def split: prod.splits sum.splits)
  have m: "mkto_content w' = mkto_content w"
    using processEmail_writes [OF assms(1)] by (simp add: writes_def frame_def)
  obtain c w1 where c: "getEmailContent (email_id email) w = (c, w1)"
    by (cases "getEmailContent (email_id email) w")
  obtain content where cs: "c = Some content" and html: "truthy (htmlContent content)"
    using tr c assms(2) by (cases c) (auto simp: processEmail_try_def split: if_splits)
  obtain item where item: "first_result (mkto_content w (email_id email)) = Some item"
    "htmlContent content = item_htmlContent item"
    using getEmailContent_Some [OF c [unfolded cs]] by blast
  obtain year month where t: "toPathFormat P (new_Date P (createdAt email)) = Inr (year, month)"
    using tr c cs html
    by (cases "toPathFormat P (new_Date P (createdAt email))")
      (auto simp: processEmail_try_def)
  obtain f w2 where f: "ensureFolderPath base (folderPath year month email) w1 = (f, w2)"
    by (cases "ensureFolderPath base (folderPath year month email) w1")
  obtain F where fF: "f = Inr F"
    using tr c cs html t f by (cases f) (auto simp: processEmail_try_def)
  obtain F2 where f2: "folder_of (alf_nodes w2) base (folderPath year month email) = Some F2"
    and id2: "node_id F2 = node_id F"
    using ensureFolderPath_Inr [OF f [unfolded fF]] by blast
  obtain n w3 where n: "nodeExists (node_id F) (emailFileName P email) w2 = (n, w3)"
    by (cases "nodeExists (node_id F) (emailFileName P email) w2")
  have n3: "alf_nodes w3 = alf_nodes w2" using nodeExists_nodes [OF n] .
  have "\<exists>F'. folder_of (alf_nodes w') base (folderPath year month email) = Some F'
      \<and> srv_child (alf_nodes w') (node_id F') (emailFileName P email) \<noteq> None"
  proof (cases n)
    case (Some existingNode)
    then have "w' = w3" using tr c cs html t f fF n by (simp add: processEmail_try_def)
    moreover have "srv_child (alf_nodes w2) (node_id F) (emailFileName P email) = Some existingNode"
      using nodeExists_Some [of "node_id F" "emailFileName P email" w2 existingNode w3] n Some by simp
    ultimately show ?thesis using f2 id2 n3 by auto
  next
    case None
    then have up: "uploadEmail P email content
        (case htmlContent content of None \<Rightarrow> [] | Some h \<Rightarrow> h) F w3 = (Inr r, w')"
      using tr c cs html t f fF n by (simp add: processEmail_try_def)
    have g: "grows (alf_nodes w2) (alf_nodes w')"
      using frame_grows [OF uploadEmail_writes [OF up]] n3 by simp
    obtain F' where "folder_of (alf_nodes w') base (folderPath year month email) = Some F'"
      and "node_id F' = node_id F2"
      using grows_walk [OF g f2 [unfolded folder_of_def], of root_node] by (auto simp: folder_of_def)
    then show ?thesis using uploadEmail_Inr [OF up] id2 by auto
  qed
  then show ?thesis
    unfolding archived_def using item html t m by auto
qed

text \<open>
  When no request fails, materializing a candidate that is archived finds its file and
  changes nothing but the request counter.
\<close>

lemma processEmail_existing:
  assumes nf: "\<forall>n \<ge> calls w. faults w n = None" and a: "archived P base w email"
  shows "\<exists>n c. processEmail P base email w =
      (\<lparr>pr_success = True, pr_node = Some n\<rparr>, w\<lparr>calls := c\<rparr>) \<and> calls w \<le> c"
proof -
  obtain item year month F k where
    i: "first_result (mkto_content w (email_id email)) = Some item" "truthy (item_htmlContent item)"
    and t: "toPathFormat P (new_Date P (createdAt email)) = Inr (year, month)"
    and f: "folder_of (alf_nodes w) base (folderPath year month email) = Some F"
    and c: "srv_child (alf_nodes w) (node_id F) (emailFileName P email) = Some k"
    using a by (auto simp: archived_def)
  let ?path = "folderPath year month email"
  define c2 where "c2 = Suc (Suc (calls w))"
  define c3 where "c3 = c2 + Suc (length (pathParts ?path))"
  have le: "calls w \<le> c2" "calls w \<le> c3" by (simp_all add: c2_def c3_def)
  obtain content where g: "getEmailContent (email_id email) w = (Some content, w\<lparr>calls := c2\<rparr>)"
    and h: "htmlContent content = item_htmlContent item"
    using getEmailContent_ok [OF nf i(1)] unfolding c2_def by blast
  have nf2: "\<forall>n \<ge> calls (w\<lparr>calls := c2\<rparr>). faults (w\<lparr>calls := c2\<rparr>) n = None"
    using nf le by simp
  have e: "ensureFolderPath base ?path (w\<lparr>calls := c2\<rparr>) = (Inr F, w\<lparr>calls := c3\<rparr>)"
    using ensureFolderPath_existing [OF nf2, of base ?path F] f by (simp add: c3_def)
  have nf3: "\<forall>n \<ge> calls (w\<lparr>calls := c3\<rparr>). faults (w\<lparr>calls := c3\<rparr>) n = None"
    using nf le by simp
  have x: "nodeExists (node_id F) (emailFileName P email) (w\<lparr>calls := c3\<rparr>) =
      (Some k, w\<lparr>calls := Suc c3\<rparr>)"
    using nodeExists_ok [OF nf3, of "node_id F" "emailFileName P email"] c by simp
  have "processEmail_try P base email w =
      (Inr \<lparr>pr_success = True, pr_node = Some k\<rparr>, w\<lparr>calls := Suc c3\<rparr>)"
    using i(2) h by (simp add: processEmail_try_def g t e x)
  then have "processEmail P base email w =
      (\<lparr>pr_success = True, pr_node = Some k\<rparr>, w\<lparr>calls := Suc c3\<rparr>) \<and> calls w \<le> Suc c3"
    using le by (simp add: processEmail_def)
  then show ?thesis by blast
qed

lemma processItems_existing:
  assumes "\<forall>n \<ge> calls w. faults w n = None" and "\<forall>email \<in> set emails. archived P base w email"
  shows "\<exists>c. processItems P base emails acc w =
      (acc\<lparr>processed := processed acc + length emails\<rparr>, w\<lparr>calls := c\<rparr>) \<and> calls w \<le> c"
  using assms
proof (induction emails arbitrary: acc w)
  case Nil
  have "processItems P base [] acc w = (acc\<lparr>processed := processed acc + length []\<rparr>, w\<lparr>calls := calls w\<rparr>)"
    by simp
  then show ?case by (intro exI [of _ "calls w"]) simp
next
  case (Cons email rest)
  obtain n c where p: "processEmail P base email w =
      (\<lparr>pr_success = True, pr_node = Some n\<rparr>, w\<lparr>calls := c\<rparr>)" and c: "calls w \<le> c"
    using processEmail_existing [OF Cons.prems(1), of P base email] Cons.prems(2) by auto
  let ?w1 = "w\<lparr>calls := c\<rparr>"
  have nf1: "\<forall>n \<ge> calls ?w1. faults ?w1 n = None" using Cons.prems(1) c by simp
  have ar: "\<forall>email \<in> set rest. archived P base ?w1 email"
    using Cons.prems(2) archived_world [of ?w1 w P base] by simp
  obtain c' where r: "processItems P base rest (tally \<lparr>pr_success = True, pr_node = Some n\<rparr> email acc) ?w1 =
      ((tally \<lparr>pr_success = True, pr_node = Some n\<rparr> email acc)
         \<lparr>processed := processed (tally \<lparr>pr_success = True, pr_node = Some n\<rparr> email acc) + length rest\<rparr>,
       ?w1\<lparr>calls := c'\<rparr>)" and c': "calls ?w1 \<le> c'"
    using Cons.IH [OF nf1 ar] by blast
  have "processItems P base (email # rest) acc w =
      (acc\<lparr>processed := processed acc + length (email # rest)\<rparr>, w\<lparr>calls := c'\<rparr>)"
    using p r by (simp add: tally_cases)
  then show ?case using c c' by (intro exI [of _ c']) simp
qed

text \<open>After a pass without failure every item of the list is archived.\<close>

lemma processItems_failed_mono:
  "processItems P base emails acc w = (b, w') \<Longrightarrow> failed acc \<le> failed b"
  using processItems_tally [of P base emails acc w b w'] by simp

lemma processItems_archives:
  "processItems P base emails acc w = (b, w') \<Longrightarrow> failed b = failed acc \<Longrightarrow>
     \<forall>email \<in> set emails. archived P base w' email"
proof (induction emails arbitrary: acc w)
  case Nil
  then show ?case by simp
next
  case (Cons email rest)
  obtain r w1 where r: "processEmail P base email w = (r, w1)" by (cases "processEmail P base email w")
  have step: "processItems P base rest (tally r email acc) w1 = (b, w')"
    using Cons.prems(1) r by simp
  have le: "failed (tally r email acc) \<le> failed b" using processItems_failed_mono [OF step] .
  have s: "pr_success r"
  proof (rule ccontr)
    assume "\<not> pr_success r"
    then have "failed (tally r email acc) = Suc (failed acc)" by (simp add: tally_cases)
    then show False using le Cons.prems(2) by simp
  qed
  then have same: "failed (tally r email acc) = failed acc"
    using processEmail_node [OF r] by (simp add: tally_cases)
  have "archived P base w1 email" using processEmail_archives [OF r s] .
  then have "archived P base w' email"
    using archived_grows processItems_writes [OF step] by blast
  moreover have "\<forall>e \<in> set rest. archived P base w' e"
    using Cons.IH [OF step] same Cons.prems(2) by simp
  ultimately show ?case by simp
qed


text \<open>A candidate without body fails, whatever the transport does.\<close>

lemma noBody_missing:
  assumes "noBody w email"
  shows "missingPayload email w"
proof -
  obtain c w1 where c: "getEmailContent (email_id email) w = (c, w1)"
    by (cases "getEmailContent (email_id email) w")
  show ?thesis
  proof (cases c)
    case None
    then show ?thesis using c by (simp add: missingPayload_def)
  next
    case (Some content)
    then obtain item where "first_result (mkto_content w (email_id email)) = Some item"
      and "htmlContent content = item_htmlContent item"
      using getEmailContent_Some [of "email_id email" w content w1] c by auto
    then show ?thesis using assms c Some by (simp add: missingPayload_def noBody_def)
  qed
qed

lemma noBody_world: "mkto_content w' = mkto_content w \<Longrightarrow> noBody w' = noBody w"
  by (rule ext) (simp add: noBody_def)

lemma noBody_writes: "writes V w w' \<Longrightarrow> noBody w' = noBody w"
  by (rule noBody_world) (simp add: writes_def frame_def)

lemma archived_has_body: "archived P base w email \<Longrightarrow> \<not> noBody w email"
  by (auto simp: archived_def noBody_def)

lemma processEmail_noBody:
  assumes nf: "\<forall>n \<ge> calls w. faults w n = None" and b: "noBody w email"
  shows "\<exists>c. processEmail P base email w =
      (\<lparr>pr_success = False, pr_node = None\<rparr>, w\<lparr>calls := c\<rparr>) \<and> calls w \<le> c"
proof -
  have f: "processEmail P base email w =
      (\<lparr>pr_success = False, pr_node = None\<rparr>, snd (getEmailContent (email_id email) w))"
    using missingPayload_fails [OF noBody_missing [OF b]] .
  have "\<exists>c. snd (getEmailContent (email_id email) w) = w\<lparr>calls := c\<rparr> \<and> calls w \<le> c"
  proof (cases "first_result (mkto_content w (email_id email))")
    case None
    then have "getEmailContent (email_id email) w = (None, w\<lparr>calls := Suc (calls w)\<rparr>)"
      using nf by (simp add: getEmailContent_def transport_def)
    then have "snd (getEmailContent (email_id email) w) = w\<lparr>calls := Suc (calls w)\<rparr>
        \<and> calls w \<le> Suc (calls w)"
      by simp
    then show ?thesis by blast
  next
    case (Some item)
    then obtain content where
      "getEmailContent (email_id email) w = (Some content, w\<lparr>calls := Suc (Suc (calls w))\<rparr>)"
      using getEmailContent_ok [OF nf] by blast
    then have "snd (getEmailContent (email_id email) w) = w\<lparr>calls := Suc (Suc (calls w))\<rparr>
        \<and> calls w \<le> Suc (Suc (calls w))"
      by simp
    then show ?thesis by blast
  qed
  then show ?thesis using f by auto
qed

text \<open>
  When no request fails, a pass over candidates that are each archived or without body
  finds the former, fails the latter and changes nothing but the request counter.
\<close>

lemma processItems_settled:
  assumes "\<forall>n \<ge> calls w. faults w n = None"
    and "\<forall>email \<in> set emails. archived P base w email \<or> noBody w email"
  shows "\<exists>b c. processItems P base emails acc w = (b, w\<lparr>calls := c\<rparr>) \<and> calls w \<le> c
    \<and> processed b = processed acc + length (filter (archived P base w) emails)
    \<and> failed b = failed acc + length (filter (noBody w) emails)
    \<and> skipped b = skipped acc
    \<and> failedIds b = failedIds acc @ map email_id (filter (noBody w) emails)"
  using assms
proof (induction emails arbitrary: acc w)
  case Nil
  have "processItems P base [] acc w = (acc, w\<lparr>calls := calls w\<rparr>)" by simp
  then show ?case by (intro exI [of _ acc] exI [of _ "calls w"]) simp
next
  case (Cons email rest)
  have "\<exists>r c. processEmail P base email w = (r, w\<lparr>calls := c\<rparr>) \<and> calls w \<le> c
      \<and> tally r email acc =
          (if noBody w email
           then acc\<lparr>failed := Suc (failed acc), failedIds := failedIds acc @ [email_id email]\<rparr>
           else acc\<lparr>processed := Suc (processed acc)\<rparr>)
      \<and> (archived P base w email \<longleftrightarrow> \<not> noBody w email)"
  proof (cases "noBody w email")
    case True
    then have na: "\<not> archived P base w email" using archived_has_body by blast
    obtain c where "processEmail P base email w =
        (\<lparr>pr_success = False, pr_node = None\<rparr>, w\<lparr>calls := c\<rparr>)" and "calls w \<le> c"
      using processEmail_noBody [OF Cons.prems(1) True, of P base] by blast
    then show ?thesis using True na by (auto simp: tally_cases)
  next
    case False
    then have a: "archived P base w email" using Cons.prems(2) by simp
    obtain n c where "processEmail P base email w =
        (\<lparr>pr_success = True, pr_node = Some n\<rparr>, w\<lparr>calls := c\<rparr>)" and "calls w \<le> c"
      using processEmail_existing [OF Cons.prems(1) a] by blast
    then show ?thesis using False a by (auto simp: tally_cases)
  qed
  then obtain r c where p: "processEmail P base email w = (r, w\<lparr>calls := c\<rparr>)"
    and c: "calls w \<le> c"
    and t: "tally r email acc =
          (if noBody w email
           then acc\<lparr>failed := Suc (failed acc), failedIds := failedIds acc @ [email_id email]\<rparr>
           else acc\<lparr>processed := Suc (processed acc)\<rparr>)"
    and an: "archived P base w email \<longleftrightarrow> \<not> noBody w email"
    by blast
  let ?w1 = "w\<lparr>calls := c\<rparr>"
  have nf1: "\<forall>n \<ge> calls ?w1. faults ?w1 n = None" using Cons.prems(1) c by simp
  have nb: "noBody ?w1 = noBody w" by (rule noBody_world) simp
  have ab: "archived P base ?w1 = archived P base w"
    by (rule ext) (rule archived_world, simp_all)
  have ar: "\<forall>email \<in> set rest. archived P base ?w1 email \<or> noBody ?w1 email"
    using Cons.prems(2) unfolding nb ab by simp
  obtain b c' where r: "processItems P base rest (tally r email acc) ?w1 = (b, ?w1\<lparr>calls := c'\<rparr>)"
    and c': "calls ?w1 \<le> c'"
    and pr: "processed b = processed (tally r email acc) + length (filter (archived P base w) rest)"
    and fa: "failed b = failed (tally r email acc) + length (filter (noBody w) rest)"
    and sk: "skipped b = skipped (tally r email acc)"
    and fi: "failedIds b = failedIds (tally r email acc) @ map email_id (filter (noBody w) rest)"
    using Cons.IH [OF nf1 ar, of "tally r email acc"] unfolding nb ab by blast
  have run: "processItems P base (email # rest) acc w = (b, w\<lparr>calls := c'\<rparr>)"
    using p r by simp
  have "calls w \<le> c'" using c c' by simp
  moreover have "processed b = processed acc + length (filter (archived P base w) (email # rest))"
    using pr t an by simp
  moreover have "failed b = failed acc + length (filter (noBody w) (email # rest))"
    using fa t by simp
  moreover have "skipped b = skipped acc" using sk t by simp
  moreover have "failedIds b = failedIds acc @ map email_id (filter (noBody w) (email # rest))"
    using fi t by simp
  ultimately show ?case using run by blast
qed

text \<open>
  What a pass leaves, whatever the transport does: a candidate whose identifier is not
  among the failed ones is archived, and a candidate without body is among the failed
  ones.
\<close>

lemma processItems_failedIds_mono:
  "processItems P base emails acc w = (b, w') \<Longrightarrow> set (failedIds acc) \<subseteq> set (failedIds b)"
  using processItems_tally [of P base emails acc w b w'] by auto

lemma processItems_archives_others:
  "processItems P base emails acc w = (b, w') \<Longrightarrow>
     \<forall>email \<in> set emails. email_id email \<notin> set (failedIds b) \<longrightarrow> archived P base w' email"
proof (induction emails arbitrary: acc w)
  case Nil
  then show ?case by simp
next
  case (Cons email rest)
  obtain r w1 where r: "processEmail P base email w = (r, w1)" by (cases "processEmail P base email w")
  have step: "processItems P base rest (tally r email acc) w1 = (b, w')"
    using Cons.prems(1) r by simp
  have mono: "set (failedIds (tally r email acc)) \<subseteq> set (failedIds b)"
    using processItems_failedIds_mono [OF step] .
  have "email_id email \<notin> set (failedIds b) \<longrightarrow> archived P base w' email"
  proof
    assume nin: "email_id email \<notin> set (failedIds b)"
    have s: "pr_success r"
    proof (rule ccontr)
      assume "\<not> pr_success r"
      then have "email_id email \<in> set (failedIds (tally r email acc))" by (simp add: tally_cases)
      then show False using mono nin by blast
    qed
    have "archived P base w1 email" using processEmail_archives [OF r s] .
    then show "archived P base w' email"
      using archived_grows processItems_writes [OF step] by blast
  qed
  then show ?case using Cons.IH [OF step] by simp
qed

lemma processItems_fails_noBody:
  "processItems P base emails acc w = (b, w') \<Longrightarrow>
     \<forall>email \<in> set emails. noBody w email \<longrightarrow> email_id email \<in> set (failedIds b)"
proof (induction emails arbitrary: acc w)
  case Nil
  then show ?case by simp
next
  case (Cons email rest)
  obtain r w1 where r: "processEmail P base email w = (r, w1)" by (cases "processEmail P base email w")
  have step: "processItems P base rest (tally r email acc) w1 = (b, w')"
    using Cons.prems(1) r by simp
  have mono: "set (failedIds (tally r email acc)) \<subseteq> set (failedIds b)"
    using processItems_failedIds_mono [OF step] .
  have nb: "noBody w1 = noBody w" using noBody_writes [OF processEmail_writes [OF r]] .
  have "noBody w email \<longrightarrow> email_id email \<in> set (failedIds b)"
  proof
    assume "noBody w email"
    then have "\<not> pr_success r"
      using missingPayload_fails [OF noBody_missing, of w email P base] r by simp
    then have "email_id email \<in> set (failedIds (tally r email acc))" by (simp add: tally_cases)
    then show "email_id email \<in> set (failedIds b)" using mono by blast
  qed
  then show ?case using Cons.IH [OF step] unfolding nb by simp
qed

section \<open>Where a candidate is archived\<close>






section \<open>Running twice\<close>

lemma candidates_Some:
  assumes "candidates P cfg w = Some emails"
  shows "\<exists>start w0 st w1 since w2 w3.
      now w = (start, w0) \<and> loadSyncState (basePath cfg) w0 = (st, w1)
    \<and> sinceDate P cfg st w1 = (Inr since, w2)
    \<and> getEmailsSince P since w2 = Some (Inr emails, w3)"
proof -
  obtain start w0 where n: "now w = (start, w0)" by (cases "now w")
  obtain st w1 where l: "loadSyncState (basePath cfg) w0 = (st, w1)"
    by (cases "loadSyncState (basePath cfg) w0")
  obtain sd w2 where s: "sinceDate P cfg st w1 = (sd, w2)" by (cases "sinceDate P cfg st w1")
  obtain since where sd: "sd = Inr since"
    using assms n l s by (cases sd) (auto simp: candidates_def)
  have "\<exists>w3. getEmailsSince P since w2 = Some (Inr emails, w3)"
    using assms n l s sd
    by (auto simp: candidates_def split: option.splits sum.splits prod.splits)
  then show ?thesis using n l s sd by blast
qed

lemma candidates_of_run:
  assumes "sync P cfg w = Some (Inr r, w')"
  shows "\<exists>emails. candidates P cfg w = Some emails \<and> totalEmails r = length emails"
proof -
  obtain w0 where n: "now w = (startTime r, w0)"
    and t: "sync_try P cfg (startTime r) w0 = Some (Inr r, w')"
    using sync_Inr [OF assms] by blast
  obtain st w1 since w2 emails w3 where
    "loadSyncState (basePath cfg) w0 = (st, w1)"
    "sinceDate P cfg st w1 = (Inr since, w2)"
    "getEmailsSince P since w2 = Some (Inr emails, w3)"
    "totalEmails r = length emails"
    using sync_try_Inr [OF t] by blast
  then show ?thesis using n by (simp add: candidates_def)
qed

text \<open>
  What a run that returns a result leaves: each candidate that it does not report as
  failed is archived, each candidate without body is reported as failed, and a positive
  batch size was used when there was a candidate.
\<close>

lemma run_leaves:
  assumes run: "sync P cfg w = Some (Inr r, w')" and c: "candidates P cfg w = Some emails"
  shows "\<forall>email \<in> set emails.
        email_id email \<notin> set (failedEmailIds r) \<longrightarrow> archived P (basePath cfg) w' email"
    and "\<forall>email \<in> set emails. noBody w email \<longrightarrow> email_id email \<in> set (failedEmailIds r)"
    and "emails \<noteq> [] \<longrightarrow> 0 < batchSize cfg"
proof -
  obtain w0 where n: "now w = (startTime r, w0)"
    and t: "sync_try P cfg (startTime r) w0 = Some (Inr r, w')"
    using sync_Inr [OF run] by blast
  obtain st w1 since w2 es w3 where
    l: "loadSyncState (basePath cfg) w0 = (st, w1)"
    and s: "sinceDate P cfg st w1 = (Inr since, w2)"
    and g: "getEmailsSince P since w2 = Some (Inr es, w3)"
    and cs: "if es = [] then
          now w3 = (endTime r, w') \<and> processedEmails r = 0 \<and> failedEmails r = 0
          \<and> skippedEmails r = 0 \<and> failedEmailIds r = []
        else (\<exists>b w4 w5.
            processBatch P (basePath cfg) es (batchSize cfg) w3 = Some (b, w4)
          \<and> saveSyncState (basePath cfg) (isoString P (startTime r)) w4 = (Inr (), w5)
          \<and> now w5 = (endTime r, w')
          \<and> processedEmails r = processed b \<and> failedEmails r = failed b
          \<and> skippedEmails r = skipped b \<and> failedEmailIds r = failedIds b)"
    using sync_try_Inr [OF t] by blast
  have "candidates P cfg w = Some es" using n l s g by (simp add: candidates_def)
  then have es: "es = emails" using c by simp
  have q3: "writes {} w w3"
    using now_writes [OF n] loadSyncState_writes [OF l] sinceDate_writes [OF s]
      getEmailsSince_writes [OF g] writes_quiet_trans by blast
  have all: "(\<forall>email \<in> set emails.
        email_id email \<notin> set (failedEmailIds r) \<longrightarrow> archived P (basePath cfg) w' email)
    \<and> (\<forall>email \<in> set emails. noBody w email \<longrightarrow> email_id email \<in> set (failedEmailIds r))
    \<and> (emails \<noteq> [] \<longrightarrow> 0 < batchSize cfg)"
  proof (cases "emails = []")
    case True
    then show ?thesis by simp
  next
    case False
    then obtain b w4 w5 where pb: "processBatch P (basePath cfg) emails (batchSize cfg) w3 = Some (b, w4)"
      and sv: "saveSyncState (basePath cfg) (isoString P (startTime r)) w4 = (Inr (), w5)"
      and f: "now w5 = (endTime r, w')"
      and fb: "failedEmailIds r = failedIds b"
      using cs es by auto
    have pos: "0 < batchSize cfg"
      using processBatch_loop_returns [OF pb [unfolded processBatch_def]] False by simp
    have items: "processItems P (basePath cfg) emails emptyBatch w3 = (b, w4)"
      using processBatch_result [OF pb] .
    have a4: "\<forall>email \<in> set emails.
        email_id email \<notin> set (failedIds b) \<longrightarrow> archived P (basePath cfg) w4 email"
      using processItems_archives_others [OF items] .
    have "writes {isoString P (startTime r)} w4 w'"
      using saveSyncState_writes [OF sv] now_writes [OF f] writes_trans_quiet by blast
    then have a: "\<forall>email \<in> set emails.
        email_id email \<notin> set (failedIds b) \<longrightarrow> archived P (basePath cfg) w' email"
      using a4 archived_grows by blast
    have "\<forall>email \<in> set emails. noBody w3 email \<longrightarrow> email_id email \<in> set (failedIds b)"
      using processItems_fails_noBody [OF items] .
    then have "\<forall>email \<in> set emails. noBody w email \<longrightarrow> email_id email \<in> set (failedIds b)"
      unfolding noBody_writes [OF q3] .
    then show ?thesis using a pos fb by simp
  qed
  show "\<forall>email \<in> set emails.
        email_id email \<notin> set (failedEmailIds r) \<longrightarrow> archived P (basePath cfg) w' email"
    using all by blast
  show "\<forall>email \<in> set emails. noBody w email \<longrightarrow> email_id email \<in> set (failedEmailIds r)"
    using all by blast
  show "emails \<noteq> [] \<longrightarrow> 0 < batchSize cfg" using all by blast
qed

text \<open>
  C2, as the code has it. Let a first run return a result, and let a second run start in
  the world that the first one left, with the source data as they were: every candidate
  of the second run was a candidate of the first. Each candidate that the first run does
  not report as failed is archived when the second run starts, and each candidate
  without body is reported as failed by the first run. If no request fails during the
  second run and each of its candidates is archived at its start or has no body, then
  the second run returns a result: it finds each archived candidate and counts it as
  processed, it reports each candidate without body as failed again, it counts none as
  skipped, and the repository holds the same nodes as before, the sync marker aside.
  So when every candidate of the second run is archived, none is failed.
\<close>

theorem second_run_idempotent:
  assumes run1: "sync P cfg w = Some (Inr r1, w1)"
    and nf: "\<forall>n \<ge> calls w1. faults w1 n = None"
    and c1: "candidates P cfg w = Some c1"
    and c2: "candidates P cfg w1 = Some c2"
    and sub: "set c2 \<subseteq> set c1"
    and ar: "\<forall>email \<in> set c2. archived P (basePath cfg) w1 email \<or> noBody w1 email"
  shows "(\<forall>email \<in> set c1.
        email_id email \<notin> set (failedEmailIds r1) \<longrightarrow> archived P (basePath cfg) w1 email)
    \<and> (\<forall>email \<in> set c1. noBody w email \<longrightarrow> email_id email \<in> set (failedEmailIds r1))
    \<and> (\<exists>r2 w2. sync P cfg w1 = Some (Inr r2, w2)
        \<and> totalEmails r2 = length c2
        \<and> processedEmails r2 = length (filter (archived P (basePath cfg) w1) c2)
        \<and> failedEmails r2 = length (filter (noBody w1) c2)
        \<and> failedEmailIds r2 = map email_id (filter (noBody w1) c2)
        \<and> skippedEmails r2 = 0
        \<and> archive_idents (alf_nodes w2) = archive_idents (alf_nodes w1)
        \<and> ((\<forall>email \<in> set c2. archived P (basePath cfg) w1 email) \<longrightarrow>
              processedEmails r2 = length c2 \<and> failedEmails r2 = 0 \<and> failedEmailIds r2 = []))"
proof -
  let ?base = "basePath cfg"
  note first = run_leaves [OF run1 c1]
  have pos: "c2 \<noteq> [] \<longrightarrow> 0 < batchSize cfg" using first(3) sub by auto
  obtain start v0 st v1 since v2 v3 where
    n: "now w1 = (start, v0)" and l: "loadSyncState ?base v0 = (st, v1)"
    and s: "sinceDate P cfg st v1 = (Inr since, v2)"
    and g: "getEmailsSince P since v2 = Some (Inr c2, v3)"
    using candidates_Some [OF c2] by blast
  have q3: "writes {} w1 v3"
    using now_writes [OF n] loadSyncState_writes [OF l] sinceDate_writes [OF s]
      getEmailsSince_writes [OF g] writes_quiet_trans by blast
  have n3: "alf_nodes v3 = alf_nodes w1"
    using now_nodes [OF n] loadSyncState_nodes [OF l] sinceDate_nodes [OF s]
      getEmailsSince_nodes [OF g] by simp
  have m3: "mkto_content v3 = mkto_content w1" using q3 by (simp add: writes_def frame_def)
  have nf3: "\<forall>n \<ge> calls v3. faults v3 n = None" using frame_no_faults [OF q3 nf] .
  have nb3: "noBody v3 = noBody w1" using noBody_world [OF m3] .
  have ab3: "archived P ?base v3 = archived P ?base w1"
    by (rule ext) (rule archived_world [OF m3 n3])
  have ar3: "\<forall>email \<in> set c2. archived P ?base v3 email \<or> noBody v3 email"
    using ar unfolding nb3 ab3 .
  have all: "(\<forall>email \<in> set c2. archived P ?base w1 email) \<longrightarrow> filter (noBody w1) c2 = []
      \<and> filter (archived P ?base w1) c2 = c2"
    using archived_has_body [of P ?base w1] by (auto simp: filter_empty_conv filter_id_conv)
  have second: "\<exists>r2 w2. sync P cfg w1 = Some (Inr r2, w2)
        \<and> totalEmails r2 = length c2
        \<and> processedEmails r2 = length (filter (archived P ?base w1) c2)
        \<and> failedEmails r2 = length (filter (noBody w1) c2)
        \<and> failedEmailIds r2 = map email_id (filter (noBody w1) c2)
        \<and> skippedEmails r2 = 0
        \<and> archive_idents (alf_nodes w2) = archive_idents (alf_nodes w1)
        \<and> ((\<forall>email \<in> set c2. archived P ?base w1 email) \<longrightarrow>
              processedEmails r2 = length c2 \<and> failedEmails r2 = 0 \<and> failedEmailIds r2 = [])"
  proof (cases "c2 = []")
    case True
    obtain finish v4 where f: "now v3 = (finish, v4)" by (cases "now v3")
    have "sync_try P cfg start v0 =
        Some (Inr \<lparr>totalEmails = length c2, processedEmails = 0,
                    failedEmails = 0, skippedEmails = 0, failedEmailIds = [],
                    startTime = start, endTime = finish, duration = finish - start\<rparr>, v4)"
      using True by (simp add: sync_try_def l s g f)
    then have "sync P cfg w1 =
        Some (Inr \<lparr>totalEmails = length c2, processedEmails = 0,
                    failedEmails = 0, skippedEmails = 0, failedEmailIds = [],
                    startTime = start, endTime = finish, duration = finish - start\<rparr>, v4)"
      by (simp add: sync_def n)
    moreover have "alf_nodes v4 = alf_nodes w1" using now_nodes [OF f] n3 by simp
    ultimately show ?thesis using True by simp
  next
    case False
    then have bs: "0 < batchSize cfg" using pos by simp
    obtain b c where items: "processItems P ?base c2 emptyBatch v3 = (b, v3\<lparr>calls := c\<rparr>)"
      and pr: "processed b = processed emptyBatch + length (filter (archived P ?base v3) c2)"
      and fa: "failed b = failed emptyBatch + length (filter (noBody v3) c2)"
      and sk: "skipped b = skipped emptyBatch"
      and fi: "failedIds b = failedIds emptyBatch @ map email_id (filter (noBody v3) c2)"
      using processItems_settled [OF nf3 ar3, of emptyBatch] by blast
    have pb: "processBatch P ?base c2 (batchSize cfg) v3 = Some (b, v3\<lparr>calls := c\<rparr>)"
      using processBatch_total [OF bs, of P ?base c2 v3] items by simp
    obtain sv v5 where sv: "saveSyncState ?base (isoString P start) (v3\<lparr>calls := c\<rparr>) = (sv, v5)"
      by (cases "saveSyncState ?base (isoString P start) (v3\<lparr>calls := c\<rparr>)")
    have svr: "sv = Inr ()"
      using saveSyncState_never_raises [of ?base "isoString P start" "v3\<lparr>calls := c\<rparr>"] sv
      by simp
    obtain finish v6 where f: "now v5 = (finish, v6)" by (cases "now v5")
    have "sync_try P cfg start v0 =
        Some (Inr \<lparr>totalEmails = length c2, processedEmails = processed b,
                    failedEmails = failed b, skippedEmails = skipped b,
                    failedEmailIds = failedIds b,
                    startTime = start, endTime = finish, duration = finish - start\<rparr>, v6)"
      using False by (simp add: sync_try_def l s g pb sv svr f toISOString_def)
    then have run2: "sync P cfg w1 =
        Some (Inr \<lparr>totalEmails = length c2, processedEmails = processed b,
                    failedEmails = failed b, skippedEmails = skipped b,
                    failedEmailIds = failedIds b,
                    startTime = start, endTime = finish, duration = finish - start\<rparr>, v6)"
      by (simp add: sync_def n)
    have counts: "processed b = length (filter (archived P ?base w1) c2)
        \<and> failed b = length (filter (noBody w1) c2) \<and> skipped b = 0
        \<and> failedIds b = map email_id (filter (noBody w1) c2)"
      using pr fa sk fi unfolding nb3 ab3 by (simp add: emptyBatch_def)
    have "archive_idents (alf_nodes v5) = archive_idents (alf_nodes (v3\<lparr>calls := c\<rparr>))"
      using saveSyncState_idents [OF sv] .
    then have "archive_idents (alf_nodes v6) = archive_idents (alf_nodes w1)"
      using now_nodes [OF f] n3 by simp
    then show ?thesis using run2 counts all by simp
  qed
  show ?thesis using first(1) first(2) second by blast
qed

lemma test_two_runs:
  "\<exists>r1 w1. sync test_platform test_config
          (test_world [mockEmail 1 ''6000'', mockEmail 2 ''6000''] (\<lambda>_. None)) =
        Some (Inr r1, w1)
     \<and> failedEmailIds r1 = [2] \<and> processedEmails r1 = 1
     \<and> (\<forall>n \<ge> calls w1. faults w1 n = None)
     \<and> candidates test_platform test_config
          (test_world [mockEmail 1 ''6000'', mockEmail 2 ''6000''] (\<lambda>_. None)) =
          Some [mockEmail 1 ''6000'', mockEmail 2 ''6000'']
     \<and> candidates test_platform test_config w1 = Some [mockEmail 1 ''6000'', mockEmail 2 ''6000'']
     \<and> archived test_platform ''/Test'' w1 (mockEmail 1 ''6000'')
     \<and> noBody w1 (mockEmail 2 ''6000'')"
  by (simp add: eval_defs candidates_def archived_def noBody_def folder_of_def)

theorem second_run_idempotent_witness:
  "\<exists>r1 w1 r2 w2.
     sync test_platform test_config
       (test_world [mockEmail 1 ''6000'', mockEmail 2 ''6000''] (\<lambda>_. None)) = Some (Inr r1, w1)
   \<and> processedEmails r1 = 1 \<and> failedEmailIds r1 = [2]
   \<and> sync test_platform test_config w1 = Some (Inr r2, w2)
   \<and> totalEmails r2 = 2 \<and> processedEmails r2 = 1 \<and> failedEmails r2 = 1
   \<and> failedEmailIds r2 = [2]
   \<and> archive_idents (alf_nodes w2) = archive_idents (alf_nodes w1)"
proof -
  let ?w = "test_world [mockEmail 1 ''6000'', mockEmail 2 ''6000''] (\<lambda>_. None)"
  let ?c = "[mockEmail 1 ''6000'', mockEmail 2 ''6000'']"
  obtain r1 w1 where run1: "sync test_platform test_config ?w = Some (Inr r1, w1)"
    and f1: "failedEmailIds r1 = [2]" and p1: "processedEmails r1 = 1"
    and nf: "\<forall>n \<ge> calls w1. faults w1 n = None"
    and c1: "candidates test_platform test_config ?w = Some ?c"
    and c2: "candidates test_platform test_config w1 = Some ?c"
    and a1: "archived test_platform ''/Test'' w1 (mockEmail 1 ''6000'')"
    and b2: "noBody w1 (mockEmail 2 ''6000'')"
    using test_two_runs by blast
  have sub: "set ?c \<subseteq> set ?c" by simp
  have ar: "\<forall>email \<in> set ?c. archived test_platform (basePath test_config) w1 email
      \<or> noBody w1 email"
    using a1 b2 by (simp add: test_config_def)
  have na: "\<not> archived test_platform (basePath test_config) w1 (mockEmail 2 ''6000'')"
    using archived_has_body b2 by blast
  have nb: "\<not> noBody w1 (mockEmail 1 ''6000'')"
    using archived_has_body a1 by blast
  obtain r2 w2 where "sync test_platform test_config w1 = Some (Inr r2, w2)"
    "totalEmails r2 = length ?c"
    "processedEmails r2 = length (filter (archived test_platform (basePath test_config) w1) ?c)"
    "failedEmails r2 = length (filter (noBody w1) ?c)"
    "failedEmailIds r2 = map email_id (filter (noBody w1) ?c)"
    "archive_idents (alf_nodes w2) = archive_idents (alf_nodes w1)"
    using second_run_idempotent [OF run1 nf c1 c2 sub ar] by blast
  then have "sync test_platform test_config w1 = Some (Inr r2, w2)
      \<and> totalEmails r2 = 2 \<and> processedEmails r2 = 1 \<and> failedEmails r2 = 1
      \<and> failedEmailIds r2 = [2]
      \<and> archive_idents (alf_nodes w2) = archive_idents (alf_nodes w1)"
    using a1 b2 na nb by (simp add: test_config_def mockEmail_def)
  then show ?thesis using run1 f1 p1 by blast
qed

text \<open>
  C2, as stated, fails: the one candidate of this source has no body and was updated
  after the first run started, so both runs list it and both count it as failed.
\<close>

theorem second_run_idempotent_counterexample:
  "sync test_platform test_config bodyless_world =
     Some (Inr \<lparr>totalEmails = 1, processedEmails = 0, failedEmails = 1, skippedEmails = 0,
                 failedEmailIds = [2], startTime = 5000, endTime = 5020, duration = 20\<rparr>,
           bodyless_after_first)
   \<and> map_option fst (sync test_platform test_config bodyless_after_first) =
     Some (Inr \<lparr>totalEmails = 1, processedEmails = 0, failedEmails = 1, skippedEmails = 0,
                 failedEmailIds = [2], startTime = 5030, endTime = 5040, duration = 10\<rparr>)"
  by (simp add: eval_defs bodyless_world_def bodyless_after_first_def)


end
